theory Spec2Isabelle
  imports
    Complex_Main
    "HOL-Library.Product_Lexorder"
    "HOL-Library.Word"
    "HOL-Library.Multiset"
    "HOL-Library.Sublist"
begin

section \<open>Python floats\<close>

text \<open>
  The scores of \<^verbatim>\<open>synth.py\<close> are Python floats (IEEE 754 binary64). A float is modelled by
  the rational number it denotes, and every arithmetic operation rounds its exact result to
  the nearest number with a 53-bit significand, ties to even. Exponent range is not modelled:
  the values computed here lie between \<open>2 ^ -53\<close> and a few times \<open>10 ^ 15\<close> or are zero,
  far from underflow and overflow.
\<close>

type_synonym pyfloat = rat

function log2_up :: "rat \<Rightarrow> int" where
  "log2_up x = (if 2 \<le> x then log2_up (x / 2) + 1 else 0)"
  by pat_completeness auto
termination
proof (relation "measure (\<lambda>x. nat \<lfloor>x\<rfloor>)")
  show "wf (measure (\<lambda>x::rat. nat \<lfloor>x\<rfloor>))" by simp
next
  fix x :: rat
  assume h: "2 \<le> x"
  have "\<lfloor>x / 2\<rfloor> < \<lfloor>x\<rfloor>" using h by (simp add: floor_less_iff) linarith
  moreover have "0 < \<lfloor>x\<rfloor>" using h by simp
  ultimately show "(x / 2, x) \<in> measure (\<lambda>x. nat \<lfloor>x\<rfloor>)" by simp
qed

function log2_down :: "rat \<Rightarrow> int" where
  "log2_down x = (if 0 < x \<and> x < 1 then log2_down (2 * x) - 1 else 0)"
  by pat_completeness auto
termination
proof (relation "measure (\<lambda>x. nat \<lfloor>1 / x\<rfloor>)")
  show "wf (measure (\<lambda>x::rat. nat \<lfloor>1 / x\<rfloor>))" by simp
next
  fix x :: rat
  assume h: "0 < x \<and> x < 1"
  define y where "y = 1 / x"
  have y1: "1 < y" using h by (simp add: y_def)
  have "\<lfloor>y / 2\<rfloor> < \<lfloor>y\<rfloor>"
  proof (cases "2 \<le> y")
    case True
    then show ?thesis by (simp add: floor_less_iff) linarith
  next
    case False
    then have "\<lfloor>y / 2\<rfloor> = 0" using y1 by (simp add: floor_eq_iff)
    moreover have "0 < \<lfloor>y\<rfloor>" using y1 by simp
    ultimately show ?thesis by simp
  qed
  moreover have "0 < \<lfloor>y\<rfloor>" using y1 by simp
  moreover have "1 / (2 * x) = y / 2" by (simp add: y_def)
  ultimately have "nat \<lfloor>1 / (2 * x)\<rfloor> < nat \<lfloor>1 / x\<rfloor>"
    by (simp only: y_def [symmetric])
  then show "(2 * x, x) \<in> measure (\<lambda>x. nat \<lfloor>1 / x\<rfloor>)"
    by (simp only: in_measure)
qed

declare log2_up.simps [simp del] log2_down.simps [simp del]

text \<open>The binary exponent of a positive number: \<open>2 ^ expo x \<le> x < 2 ^ (expo x + 1)\<close>.\<close>

definition expo :: "rat \<Rightarrow> int" where
  "expo x = (if 1 \<le> x then log2_up x else log2_down x)"

definition round_even :: "rat \<Rightarrow> int" where
  "round_even q =
     (let f = \<lfloor>q\<rfloor>; d = q - of_int f
      in if d < 1 / 2 then f else if 1 / 2 < d then f + 1 else if even f then f else f + 1)"

text \<open>Rounding to the nearest binary64 number.\<close>

definition fl :: "rat \<Rightarrow> pyfloat" where
  "fl x = (if x = 0 then 0
           else let e = expo \<bar>x\<bar> - 52
                in of_int (round_even (x * 2 powi (- e))) * 2 powi e)"

text \<open>A decimal literal of the source denotes the nearest float; \<open>+\<close>, \<open>-\<close> and \<open>*\<close> round.\<close>

definition lit :: "rat \<Rightarrow> pyfloat" where
  "lit x = fl x"

definition fadd :: "pyfloat \<Rightarrow> pyfloat \<Rightarrow> pyfloat" where
  "fadd a b = fl (a + b)"

definition fsub :: "pyfloat \<Rightarrow> pyfloat \<Rightarrow> pyfloat" where
  "fsub a b = fl (a - b)"

definition fmul :: "pyfloat \<Rightarrow> pyfloat \<Rightarrow> pyfloat" where
  "fmul a b = fl (a * b)"

text \<open>
  \<^verbatim>\<open>sum(xs)\<close> starts from the integer 0 and adds the items from left to right, each addition
  rounding. This is \<^verbatim>\<open>sum\<close> as CPython 3.11 computes it, the oldest interpreter the code
  runs on (\<^verbatim>\<open>types.py\<close> imports \<^verbatim>\<open>datetime.UTC\<close>). From CPython 3.12 on, \<^verbatim>\<open>sum\<close> of floats
  carries a compensation term, which this definition does not model.
\<close>

definition py_sum :: "pyfloat list \<Rightarrow> pyfloat" where
  "py_sum xs = foldl fadd 0 xs"

text \<open>\<^verbatim>\<open>d.get(k, default)\<close> on a dict literal, kept as an association list.\<close>

definition dict_get :: "('k \<times> 'v) list \<Rightarrow> 'k \<Rightarrow> 'v \<Rightarrow> 'v" where
  "dict_get d k dflt = (case map_of d k of Some v \<Rightarrow> v | None \<Rightarrow> dflt)"

text \<open>
  \<^verbatim>\<open>f"{x:.2f}"\<close>: the exact value rounded to two decimals, ties to even, printed with at
  least one digit before the point.
\<close>

definition digit_char :: "nat \<Rightarrow> char" where
  "digit_char d = char_of (48 + d)"

fun decimal :: "nat \<Rightarrow> string" where
  "decimal n = (if n < 10 then [digit_char n] else decimal (n div 10) @ [digit_char (n mod 10)])"

declare decimal.simps [simp del]

definition format_2f :: "pyfloat \<Rightarrow> string" where
  "format_2f x =
     (let n = nat (round_even (\<bar>x\<bar> * 100))
      in (if x < 0 then ''-'' else '''') @ decimal (n div 100) @ ''.''
         @ [digit_char (n div 10 mod 10), digit_char (n mod 10)])"

section \<open>Data model (\<^verbatim>\<open>types.py\<close>)\<close>

text \<open>
  The dataclasses become records. Fields are prefixed with the class they belong to, since
  several classes share the names \<^verbatim>\<open>id\<close>, \<^verbatim>\<open>tenant_id\<close> and \<^verbatim>\<open>reversibility\<close>. The
  \<^verbatim>\<open>Literal\<close> aliases are not enforced at run time, so such fields are strings. The
  timestamps and \<^verbatim>\<open>Situation.context\<close> are read by none of the functions below and are left
  out.

  A Python \<^verbatim>\<open>str\<close> is a sequence of Unicode code points. The fields that the code only
  copies, compares and concatenates are kept as byte strings. \<^verbatim>\<open>Observation.content\<close> is
  lower-cased and searched, which works on code points, so it is kept as its code points.
\<close>

type_synonym uuid = "128 word"

type_synonym codepoint = nat

text \<open>The code points of a string literal whose characters are all ASCII.\<close>

definition codepoints :: "string \<Rightarrow> codepoint list" where
  "codepoints s = map of_char s"

datatype error = ValueError string | IndexError string

record Observation =
  obs_content :: "codepoint list"
  obs_source :: string
  obs_reliability :: string
  obs_id :: uuid

record ActionSpec =
  act_name :: string
  act_description :: string
  act_reversibility :: string
  act_id :: uuid
  act_time_sensitivity :: "string option"

record Situation =
  sit_tenant_id :: string
  sit_goal :: string
  sit_time_horizon :: string
  sit_stakes :: string
  sit_observations :: "Observation list"
  sit_candidate_actions :: "ActionSpec list"
  sit_id :: uuid

record Assessment =
  asm_situation_id :: uuid
  asm_agent_type :: string
  asm_claim :: string
  asm_support :: "uuid list"
  asm_confidence :: string
  asm_severity :: string
  asm_reversibility :: string
  asm_is_hard_constraint :: bool
  asm_id :: uuid
  asm_action_id :: "uuid option"
  asm_recommended_tests :: "string list"

record MonitoringTrigger =
  trg_condition :: string
  trg_action_on_trigger :: string

record Decision =
  dec_situation_id :: uuid
  dec_tenant_id :: string
  dec_selected_action :: ActionSpec
  dec_alternatives_considered :: "ActionSpec list"
  dec_robustness_basis :: string
  dec_assessments_used :: "uuid list"
  dec_monitoring :: "MonitoringTrigger list"
  dec_id :: uuid

section \<open>Synthesis (\<^verbatim>\<open>synth.py\<close>)\<close>

definition REVERSIBILITY_SCORES :: "(string \<times> pyfloat) list" where
  "REVERSIBILITY_SCORES =
     [(''reversible'', lit 1), (''costly'', lit (1 / 2)), (''irreversible'', lit 0)]"

definition SEVERITY_WEIGHTS :: "(string \<times> pyfloat) list" where
  "SEVERITY_WEIGHTS = [(''low'', lit (1 / 10)), (''medium'', lit (2 / 10)), (''high'', lit (3 / 10))]"

text \<open>
  The set comprehension collects the \<^verbatim>\<open>action_id\<close> of every hard constraint that has one;
  the list comprehension keeps the input order.
\<close>

definition filter_by_constraints :: "ActionSpec list \<Rightarrow> Assessment list \<Rightarrow> ActionSpec list" where
  "filter_by_constraints actions assessments =
     (let violated_action_ids =
            set (map (\<lambda>a. the (asm_action_id a))
                   (filter (\<lambda>a. asm_is_hard_constraint a \<and> asm_action_id a \<noteq> None)
                      assessments))
      in filter (\<lambda>action. act_id action \<notin> violated_action_ids) actions)"

definition score_robustness :: "ActionSpec \<Rightarrow> Assessment list \<Rightarrow> pyfloat" where
  "score_robustness action assessments =
     (let rev_score = dict_get REVERSIBILITY_SCORES (act_reversibility action) (lit (1 / 2));
          action_warnings =
            filter (\<lambda>a. asm_action_id a = Some (act_id action) \<and> \<not> asm_is_hard_constraint a)
              assessments;
          warning_penalty =
            py_sum (map (\<lambda>w. dict_get SEVERITY_WEIGHTS (asm_severity w) (lit (2 / 10)))
                      action_warnings);
          constraint_score = max (lit 0) (fsub (lit 1) warning_penalty)
      in fadd (fmul (lit (6 / 10)) rev_score) (fmul (lit (4 / 10)) constraint_score))"

text \<open>\<^verbatim>\<open>xs.index(x)\<close>: the first position holding a value equal to \<open>x\<close>; raises when there is none.\<close>

fun list_index :: "'a list \<Rightarrow> 'a \<Rightarrow> nat option" where
  "list_index [] x = None"
| "list_index (y # ys) x = (if y = x then Some 0 else map_option Suc (list_index ys x))"

text \<open>
  \<^verbatim>\<open>xs.sort(key=f)\<close> computes the key of every item first (\<open>None\<close> when a key raises), then
  sorts stably by key. \<^verbatim>\<open>sorted(xs, key=f, reverse=True)\<close> keeps equal keys in their
  original order: it sorts the reversed list and reverses the result.
\<close>

definition sort_by_key :: "('a \<Rightarrow> 'k::linorder option) \<Rightarrow> 'a list \<Rightarrow> 'a list option" where
  "sort_by_key key xs =
     map_option (\<lambda>ks. map snd (sort_key fst (zip ks xs))) (those (map key xs))"

definition sorted_reverse :: "('a \<Rightarrow> 'k::linorder) \<Rightarrow> 'a list \<Rightarrow> 'a list" where
  "sorted_reverse key xs = rev (sort_key key (rev xs))"

definition select_action :: "ActionSpec list \<Rightarrow> Assessment list \<Rightarrow> error + ActionSpec" where
  "select_action actions assessments =
     (if actions = [] then Inl (ValueError ''Cannot select from empty action list'')
      else
        let scored = map (\<lambda>action. (action, score_robustness action assessments)) actions
        in case sort_by_key
                  (\<lambda>x. map_option (\<lambda>i. (- snd x, i)) (list_index actions (fst x))) scored of
             None \<Rightarrow> Inl (ValueError ''x is not in list'')
           | Some [] \<Rightarrow> Inl (IndexError ''list index out of range'')
           | Some (x # _) \<Rightarrow> Inr (fst x))"

text \<open>The loop appends one trigger per qualifying assessment.\<close>

definition generate_monitoring :: "Assessment list \<Rightarrow> MonitoringTrigger list" where
  "generate_monitoring assessments =
     foldl (\<lambda>triggers assessment.
              if \<not> asm_is_hard_constraint assessment \<and> asm_severity assessment = ''high''
              then triggers @ [\<lparr>trg_condition = ''Monitor: '' @ asm_claim assessment,
                               trg_action_on_trigger = ''alert''\<rparr>]
              else triggers)
       [] assessments"

definition find_most_reversible :: "ActionSpec list \<Rightarrow> error + ActionSpec" where
  "find_most_reversible actions =
     (if actions = [] then Inl (ValueError ''Cannot find most reversible from empty list'')
      else
        case sorted_reverse
               (\<lambda>a. dict_get REVERSIBILITY_SCORES (act_reversibility a) (lit (1 / 2))) actions of
          [] \<Rightarrow> Inl (IndexError ''list index out of range'')
        | a # _ \<Rightarrow> Inr a)"

definition quoted :: "string \<Rightarrow> string" where
  "quoted s = [CHR 0x27] @ s @ [CHR 0x27]"

text \<open>
  \<open>new_id\<close> is the value \<^verbatim>\<open>uuid4()\<close> gives the new Decision. An error of \<^verbatim>\<open>select_action\<close>
  or \<^verbatim>\<open>_find_most_reversible\<close> propagates.
\<close>

definition synthesize :: "uuid \<Rightarrow> Situation \<Rightarrow> Assessment list \<Rightarrow> error + Decision" where
  "synthesize new_id situation assessments =
     (let surviving_actions = filter_by_constraints (sit_candidate_actions situation) assessments;
          monitoring = generate_monitoring assessments;
          assessments_used = map asm_id assessments
      in if surviving_actions \<noteq> [] then
           (case select_action surviving_actions assessments of
              Inl e \<Rightarrow> Inl e
            | Inr selected_action \<Rightarrow>
                let score = score_robustness selected_action assessments;
                    alternatives = filter (\<lambda>a. act_id a \<noteq> act_id selected_action)
                                     (sit_candidate_actions situation);
                    robustness_basis =
                      ''Passed all hard constraints. '' @ ''Selected ''
                      @ quoted (act_name selected_action) @ '' with robustness score ''
                      @ format_2f score @ ''. '' @ ''Action is ''
                      @ act_reversibility selected_action @ ''.''
                in Inr \<lparr>dec_situation_id = sit_id situation,
                        dec_tenant_id = sit_tenant_id situation,
                        dec_selected_action = selected_action,
                        dec_alternatives_considered = alternatives,
                        dec_robustness_basis = robustness_basis,
                        dec_assessments_used = assessments_used,
                        dec_monitoring = monitoring,
                        dec_id = new_id\<rparr>)
         else
           (case find_most_reversible (sit_candidate_actions situation) of
              Inl e \<Rightarrow> Inl e
            | Inr selected_action \<Rightarrow>
                let alternatives = filter (\<lambda>a. act_id a \<noteq> act_id selected_action)
                                     (sit_candidate_actions situation);
                    robustness_basis =
                      ''No action passed all hard constraints. '' @ ''Selected ''
                      @ quoted (act_name selected_action)
                      @ '' as most reversible fallback option.''
                in Inr \<lparr>dec_situation_id = sit_id situation,
                        dec_tenant_id = sit_tenant_id situation,
                        dec_selected_action = selected_action,
                        dec_alternatives_considered = alternatives,
                        dec_robustness_basis = robustness_basis,
                        dec_assessments_used = assessments_used,
                        dec_monitoring = monitoring,
                        dec_id = new_id\<rparr>))"

section \<open>Evaluators (\<^verbatim>\<open>nodes.py\<close>)\<close>

text \<open>
  \<^verbatim>\<open>str.lower()\<close> lowers every cased code point. The letters A to Z become a to z and
  no other ASCII code point changes. Two code points outside ASCII give ASCII letters:
  the Kelvin sign U+212A becomes \<^verbatim>\<open>k\<close>, and the dotted capital I U+0130 becomes \<^verbatim>\<open>i\<close>
  followed by the combining dot U+0307 (the only code point that lowers to more than one).
  Every other code point outside ASCII lowers to one code point outside ASCII; the model
  keeps such a code point as it is. The keywords are ASCII, so no keyword test below can
  tell which code point outside ASCII stands at a place.

  \<^verbatim>\<open>kw in s\<close> is the contiguous-substring test \<^const>\<open>sublist\<close>. The keyword sets are only
  ever tested for some member matching, so each is kept as a list.
\<close>

definition lower_codepoint :: "codepoint \<Rightarrow> codepoint list" where
  "lower_codepoint c =
     (if 65 \<le> c \<and> c \<le> 90 then [c + 32]
      else if c = 0x212A then [0x6B]
      else if c = 0x130 then [0x69, 0x307]
      else [c])"

definition lower :: "codepoint list \<Rightarrow> codepoint list" where
  "lower s = concat (map lower_codepoint s)"

definition DEADLINE_KEYWORDS :: "string list" where
  "DEADLINE_KEYWORDS =
     [''deadline'', ''due'', ''by friday'', ''by monday'', ''by tuesday'', ''by wednesday'',
      ''by thursday'', ''end of'', ''must complete'', ''time limit'', ''urgent'',
      ''asap'', ''immediately'', ''today'', ''tomorrow'', ''this week'']"

definition INCREASE_KEYWORDS :: "string list" where
  "INCREASE_KEYWORDS =
     [''increase'', ''grow'', ''rise'', ''up'', ''higher'', ''more'', ''expand'', ''gain'']"

definition DECREASE_KEYWORDS :: "string list" where
  "DECREASE_KEYWORDS =
     [''decrease'', ''drop'', ''fall'', ''down'', ''lower'', ''less'', ''shrink'', ''decline'']"

definition has_deadline_indicator :: "Situation \<Rightarrow> bool" where
  "has_deadline_indicator situation =
     list_ex (\<lambda>obs. let content_lower = lower (obs_content obs)
                     in list_ex (\<lambda>keyword. sublist (codepoints keyword) content_lower)
                          DEADLINE_KEYWORDS)
       (sit_observations situation)"

text \<open>
  Every \<^verbatim>\<open>Assessment(...)\<close> draws its \<^verbatim>\<open>id\<close> from \<^verbatim>\<open>uuid4()\<close>. The evaluators take the
  supply \<open>fresh\<close>: the assessment constructed when \<open>k\<close> others have been appended gets
  \<open>fresh k\<close>. One step of the loop over the candidate actions of
  \<^verbatim>\<open>ConstraintAgent.assess\<close>:
\<close>

definition constraint_step ::
  "(nat \<Rightarrow> uuid) \<Rightarrow> Situation \<Rightarrow> bool \<Rightarrow> Assessment list \<Rightarrow> ActionSpec \<Rightarrow> Assessment list" where
  "constraint_step fresh situation has_deadline assessments action =
     (let assessments1 =
            (if has_deadline \<and> act_time_sensitivity action = Some ''flexible''
             then assessments @
               [\<lparr>asm_situation_id = sit_id situation,
                 asm_agent_type = ''constraint'',
                 asm_claim = ''Action '' @ quoted (act_name action)
                             @ '' may miss deadline due to flexible timing'',
                 asm_support = map obs_id (sit_observations situation),
                 asm_confidence = ''high'',
                 asm_severity = ''high'',
                 asm_reversibility = ''irreversible'',
                 asm_is_hard_constraint = True,
                 asm_id = fresh (length assessments),
                 asm_action_id = Some (act_id action),
                 asm_recommended_tests = []\<rparr>]
             else assessments)
      in if act_reversibility action = ''irreversible'' \<and> sit_stakes situation = ''high''
         then assessments1 @
           [\<lparr>asm_situation_id = sit_id situation,
             asm_agent_type = ''constraint'',
             asm_claim = ''Irreversible action '' @ quoted (act_name action)
                         @ '' in high-stakes situation'',
             asm_support = [],
             asm_confidence = ''high'',
             asm_severity = ''high'',
             asm_reversibility = ''irreversible'',
             asm_is_hard_constraint = False,
             asm_id = fresh (length assessments1),
             asm_action_id = Some (act_id action),
             asm_recommended_tests = []\<rparr>]
         else if act_reversibility action = ''irreversible'' \<and> sit_stakes situation = ''medium''
         then assessments1 @
           [\<lparr>asm_situation_id = sit_id situation,
             asm_agent_type = ''constraint'',
             asm_claim = ''Irreversible action '' @ quoted (act_name action)
                         @ '' limits future options'',
             asm_support = [],
             asm_confidence = ''medium'',
             asm_severity = ''medium'',
             asm_reversibility = ''irreversible'',
             asm_is_hard_constraint = False,
             asm_id = fresh (length assessments1),
             asm_action_id = Some (act_id action),
             asm_recommended_tests = []\<rparr>]
         else assessments1)"

definition ConstraintAgent_assess :: "(nat \<Rightarrow> uuid) \<Rightarrow> Situation \<Rightarrow> Assessment list" where
  "ConstraintAgent_assess fresh situation =
     (let has_deadline = has_deadline_indicator situation
      in foldl (constraint_step fresh situation has_deadline) [] (sit_candidate_actions situation))"

definition detect_conflicts :: "Observation list \<Rightarrow> (Observation \<times> Observation) list" where
  "detect_conflicts observations =
     (let groups =
            foldl (\<lambda>(increase_obs, decrease_obs) obs.
                     let content_lower = lower (obs_content obs);
                         has_increase = list_ex (\<lambda>kw. sublist (codepoints kw) content_lower)
                                          INCREASE_KEYWORDS;
                         has_decrease = list_ex (\<lambda>kw. sublist (codepoints kw) content_lower)
                                          DECREASE_KEYWORDS
                     in if has_increase \<and> \<not> has_decrease then (increase_obs @ [obs], decrease_obs)
                        else if has_decrease \<and> \<not> has_increase
                             then (increase_obs, decrease_obs @ [obs])
                             else (increase_obs, decrease_obs))
              ([], []) observations
      in concat (map (\<lambda>inc_obs. map (\<lambda>dec_obs. (inc_obs, dec_obs)) (snd groups)) (fst groups)))"

definition low_reliability_step ::
  "(nat \<Rightarrow> uuid) \<Rightarrow> Situation \<Rightarrow> Assessment list \<Rightarrow> Observation \<Rightarrow> Assessment list" where
  "low_reliability_step fresh situation assessments obs =
     (if obs_reliability obs = ''low'' \<and> sit_stakes situation \<in> set [''high'', ''medium'']
      then let severity = (if sit_stakes situation = ''high'' then ''high'' else ''medium'')
           in assessments @
             [\<lparr>asm_situation_id = sit_id situation,
               asm_agent_type = ''reality_check'',
               asm_claim = ''Low reliability source '' @ quoted (obs_source obs) @ '' informing ''
                           @ sit_stakes situation @ ''-stakes decision'',
               asm_support = [obs_id obs],
               asm_confidence = ''high'',
               asm_severity = severity,
               asm_reversibility = ''reversible'',
               asm_is_hard_constraint = False,
               asm_id = fresh (length assessments),
               asm_action_id = None,
               asm_recommended_tests = [''Verify information from '' @ obs_source obs]\<rparr>]
      else assessments)"

definition conflict_step ::
  "(nat \<Rightarrow> uuid) \<Rightarrow> Situation \<Rightarrow> Assessment list \<Rightarrow> Observation \<times> Observation \<Rightarrow> Assessment list" where
  "conflict_step fresh situation assessments pair =
     (case pair of (obs1, obs2) \<Rightarrow>
        assessments @
          [\<lparr>asm_situation_id = sit_id situation,
            asm_agent_type = ''reality_check'',
            asm_claim = ''Conflicting observations: '' @ quoted (obs_source obs1) @ '' vs ''
                        @ quoted (obs_source obs2),
            asm_support = [obs_id obs1, obs_id obs2],
            asm_confidence = ''high'',
            asm_severity = ''medium'',
            asm_reversibility = ''reversible'',
            asm_is_hard_constraint = False,
            asm_id = fresh (length assessments),
            asm_action_id = None,
            asm_recommended_tests = [''Gather additional data to resolve conflict'']\<rparr>])"

definition RealityCheckAgent_assess :: "(nat \<Rightarrow> uuid) \<Rightarrow> Situation \<Rightarrow> Assessment list" where
  "RealityCheckAgent_assess fresh situation =
     (let assessments1 = foldl (low_reliability_step fresh situation) [] (sit_observations situation);
          conflicts = detect_conflicts (sit_observations situation);
          assessments2 = foldl (conflict_step fresh situation) assessments1 conflicts
      in if sit_observations situation = [] \<and> sit_candidate_actions situation \<noteq> []
         then assessments2 @
           [\<lparr>asm_situation_id = sit_id situation,
             asm_agent_type = ''reality_check'',
             asm_claim = ''No observations available to inform decision'',
             asm_support = [],
             asm_confidence = ''high'',
             asm_severity = ''medium'',
             asm_reversibility = ''reversible'',
             asm_is_hard_constraint = False,
             asm_id = fresh (length assessments2),
             asm_action_id = None,
             asm_recommended_tests = [''Gather relevant observations before deciding'']\<rparr>]
         else assessments2)"

section \<open>The words of the specification\<close>

text \<open>The reversibility scores as the specification lists them; any other value scores 0.5.\<close>

definition spec_reversibility_score :: "string \<Rightarrow> pyfloat" where
  "spec_reversibility_score r =
     (if r = ''reversible'' then 1 else if r = ''costly'' then 1 / 2
      else if r = ''irreversible'' then 0 else 1 / 2)"

text \<open>The severity weights as the specification lists them; any other value weighs 0.2.\<close>

definition spec_severity_weight :: "string \<Rightarrow> pyfloat" where
  "spec_severity_weight s =
     (if s = ''low'' then lit (1 / 10) else if s = ''medium'' then lit (2 / 10)
      else if s = ''high'' then lit (3 / 10) else lit (2 / 10))"

text \<open>
  The specification calls the keyword scan case-insensitive. For a keyword character \<open>k\<close>
  (a small ASCII letter or a space), a code point \<open>a\<close> of the content counts as the same
  letter when it is \<open>k\<close> itself, the capital of \<open>k\<close>, or the Kelvin sign for \<^verbatim>\<open>k\<close>.
\<close>

definition same_letter :: "codepoint \<Rightarrow> codepoint \<Rightarrow> bool" where
  "same_letter a k = (a = k \<or> (97 \<le> k \<and> k \<le> 122 \<and> a + 32 = k) \<or> (k = 0x6B \<and> a = 0x212A))"

section \<open>Example data\<close>

text \<open>
  The factories of \<^verbatim>\<open>tests/unit/core/test_synth.py\<close>, with the identifiers that \<^verbatim>\<open>uuid4()\<close>
  would draw given explicitly.
\<close>

definition create_action :: "string \<Rightarrow> string \<Rightarrow> uuid \<Rightarrow> string option \<Rightarrow> ActionSpec" where
  "create_action name reversibility ident time_sensitivity =
     \<lparr>act_name = name, act_description = name, act_reversibility = reversibility,
      act_id = ident, act_time_sensitivity = time_sensitivity\<rparr>"

definition create_assessment :: "uuid \<Rightarrow> uuid option \<Rightarrow> bool \<Rightarrow> string \<Rightarrow> Assessment" where
  "create_assessment ident action_id is_hard_constraint severity =
     \<lparr>asm_situation_id = 100, asm_agent_type = ''constraint'', asm_claim = ''Test assessment'',
      asm_support = [], asm_confidence = ''medium'', asm_severity = severity,
      asm_reversibility = ''reversible'', asm_is_hard_constraint = is_hard_constraint,
      asm_id = ident, asm_action_id = action_id, asm_recommended_tests = []\<rparr>"

definition create_observation :: "codepoint list \<Rightarrow> string \<Rightarrow> uuid \<Rightarrow> Observation" where
  "create_observation content reliability ident =
     \<lparr>obs_content = content, obs_source = ''test'', obs_reliability = reliability,
      obs_id = ident\<rparr>"

definition create_situation :: "Observation list \<Rightarrow> ActionSpec list \<Rightarrow> string \<Rightarrow> Situation" where
  "create_situation observations actions stakes =
     \<lparr>sit_tenant_id = ''test-tenant'', sit_goal = ''Test goal'', sit_time_horizon = ''near'',
      sit_stakes = stakes, sit_observations = observations, sit_candidate_actions = actions,
      sit_id = 100\<rparr>"

definition action_a :: ActionSpec where
  "action_a = create_action ''A'' ''costly'' 1 None"

definition action_b :: ActionSpec where
  "action_b = create_action ''B'' ''costly'' 2 (Some ''flexible'')"

definition action_c :: ActionSpec where
  "action_c = create_action ''C'' ''reversible'' 3 (Some ''immediate'')"

definition action_d :: ActionSpec where
  "action_d = create_action ''D'' ''reversible'' 4 None"

definition all_constrained :: Situation where
  "all_constrained = create_situation [] [action_a, action_c, action_d] ''high''"

definition all_hard :: "Assessment list" where
  "all_hard = [create_assessment 10 (Some 1) True ''high'', create_assessment 11 (Some 3) True ''high'',
               create_assessment 12 (Some 4) True ''high'']"

definition three_warnings :: "Assessment list" where
  "three_warnings =
     [create_assessment 20 (Some 1) False ''low'', create_assessment 21 (Some 1) False ''medium'',
      create_assessment 22 (Some 1) False ''high'']"

definition fresh_ids :: "nat \<Rightarrow> uuid" where
  "fresh_ids k = 1000 + of_nat k"

definition deadline_situation :: Situation where
  "deadline_situation =
     create_situation
       [create_observation (codepoints ''Ship it THIS wee'' @ [0x212A]) ''low'' 30]
       [action_b, action_c] ''high''"

definition low_reliability_situation :: Situation where
  "low_reliability_situation =
     create_situation [create_observation (codepoints ''Sales will grow'') ''low'' 31,
                       create_observation (codepoints ''Costs will fall'') ''high'' 32]
       [action_a, action_c] ''high''"




section \<open>Rounding: monotonicity and fixed points\<close>

lemma pow2_step: "(2::rat) powi (k + 1) = 2 powi k * 2"
  by (simp add: power_int_add)

lemma pow2_split: "(2::rat) powi a * 2 powi b = 2 powi (a + b)"
  by (simp add: power_int_add)

lemma log2_up_bounds: "1 \<le> x \<Longrightarrow> 2 powi (log2_up x) \<le> x \<and> x < 2 powi (log2_up x + 1)"
proof (induction x rule: log2_up.induct)
  case (1 x)
  show ?case
  proof (cases "2 \<le> x")
    case True
    then have "1 \<le> x / 2" by simp
    from 1(1)[OF True this]
    have IH: "2 powi (log2_up (x / 2)) \<le> x / 2" "x / 2 < 2 powi (log2_up (x / 2) + 1)"
      by simp_all
    have e: "log2_up x = log2_up (x / 2) + 1"
      using True by (subst log2_up.simps) simp
    show ?thesis
      using IH unfolding e pow2_step by simp
  next
    case False
    then have "log2_up x = 0" by (subst log2_up.simps) simp
    then show ?thesis using False 1(2) by simp
  qed
qed

lemma log2_down_bounds:
  "0 < x \<Longrightarrow> x < 1 \<Longrightarrow> 2 powi (log2_down x) \<le> x \<and> x < 2 powi (log2_down x + 1)"
proof (induction x rule: log2_down.induct)
  case (1 x)
  have e: "log2_down x = log2_down (2 * x) - 1"
    using 1(2,3) by (subst log2_down.simps) simp
  have p: "(2::rat) powi (log2_down (2 * x)) = 2 powi (log2_down (2 * x) - 1) * 2"
    using pow2_step [of "log2_down (2 * x) - 1"] by simp
  show ?case
  proof (cases "2 * x < 1")
    case True
    from 1(1) [OF _ _ True] 1(2,3)
    have IH: "2 powi (log2_down (2 * x)) \<le> 2 * x" "2 * x < 2 powi (log2_down (2 * x) + 1)"
      by simp_all
    show ?thesis
      using IH unfolding e pow2_step p by simp
  next
    case False
    then have "log2_down (2 * x) = 0" by (subst log2_down.simps) simp
    then show ?thesis using False 1(3) unfolding e by simp
  qed
qed

lemma expo_bounds: "0 < x \<Longrightarrow> 2 powi (expo x) \<le> x \<and> x < 2 powi (expo x + 1)"
  using log2_up_bounds [of x] log2_down_bounds [of x] by (simp add: expo_def)

lemma expo_unique:
  assumes "2 powi k \<le> x" and "x < 2 powi (k + 1)"
  shows "expo x = k"
proof -
  have "0 < (2::rat) powi k" by simp
  then have x: "0 < x" using assms(1) by linarith
  note b = expo_bounds [OF x]
  have "\<not> expo x < k"
  proof
    assume "expo x < k"
    then have "(2::rat) powi (expo x + 1) \<le> 2 powi k"
      by (intro power_int_increasing) simp_all
    then show False using b assms by linarith
  qed
  moreover have "\<not> k < expo x"
  proof
    assume "k < expo x"
    then have "(2::rat) powi (k + 1) \<le> 2 powi (expo x)"
      by (intro power_int_increasing) simp_all
    then show False using b assms by linarith
  qed
  ultimately show ?thesis by simp
qed

lemma expo_mono:
  assumes "0 < x" and "x \<le> y"
  shows "expo x \<le> expo y"
proof (rule ccontr)
  assume "\<not> expo x \<le> expo y"
  then have "(2::rat) powi (expo y + 1) \<le> 2 powi (expo x)"
    by (intro power_int_increasing) simp_all
  moreover have "0 < y" using assms by simp
  ultimately show False
    using expo_bounds [OF assms(1)] expo_bounds [OF \<open>0 < y\<close>] assms(2) by linarith
qed

lemma round_even_of_int: "round_even (of_int n) = n"
  by (simp add: round_even_def)

lemma round_even_mono:
  assumes "q \<le> r"
  shows "round_even q \<le> round_even r"
proof (cases "\<lfloor>q\<rfloor> = \<lfloor>r\<rfloor>")
  case True
  then show ?thesis using assms by (auto simp: round_even_def Let_def)
next
  case False
  then have "\<lfloor>q\<rfloor> + 1 \<le> \<lfloor>r\<rfloor>" using floor_mono [OF assms] by simp
  moreover have "round_even q \<le> \<lfloor>q\<rfloor> + 1" by (simp add: round_even_def Let_def)
  moreover have "\<lfloor>r\<rfloor> \<le> round_even r" by (simp add: round_even_def Let_def)
  ultimately show ?thesis by linarith
qed

lemma round_even_ge: "of_int n \<le> q \<Longrightarrow> n \<le> round_even q"
  using round_even_mono [of "of_int n" q] by (simp add: round_even_of_int)

lemma round_even_le: "q \<le> of_int n \<Longrightarrow> round_even q \<le> n"
  using round_even_mono [of q "of_int n"] by (simp add: round_even_of_int)

lemma fl_pos_eq:
  "0 < x \<Longrightarrow> fl x = of_int (round_even (x * 2 powi (52 - expo x))) * 2 powi (expo x - 52)"
  by (simp add: fl_def Let_def)

lemma fl_lower:
  assumes "0 < x"
  shows "2 powi (expo x) \<le> fl x"
proof -
  define e where "e = expo x"
  define n where "n = round_even (x * 2 powi (52 - e))"
  have "2 powi e * 2 powi (52 - e) \<le> x * 2 powi (52 - e)"
    using expo_bounds [OF assms] by (simp add: e_def)
  then have "of_int (2 ^ 52) \<le> x * 2 powi (52 - e)"
    unfolding pow2_split by simp
  then have "2 ^ 52 \<le> n"
    unfolding n_def by (rule round_even_ge)
  then have "(of_int (2 ^ 52) :: rat) \<le> of_int n"
    by (simp only: of_int_le_iff)
  then have h1: "(of_int (2 ^ 52) :: rat) * 2 powi (e - 52) \<le> of_int n * 2 powi (e - 52)"
    by (intro mult_right_mono) simp_all
  have h2: "(of_int (2 ^ 52) :: rat) * 2 powi (e - 52) = 2 powi e"
    using pow2_split [of 52 "e - 52"] by simp
  have "fl x = of_int n * 2 powi (e - 52)"
    by (simp only: fl_pos_eq [OF assms] e_def n_def)
  with h1 h2 show ?thesis
    by (simp only: e_def)
qed

lemma fl_upper:
  assumes "0 < x"
  shows "fl x \<le> 2 powi (expo x + 1)"
proof -
  define e where "e = expo x"
  define n where "n = round_even (x * 2 powi (52 - e))"
  have "x * 2 powi (52 - e) \<le> 2 powi (e + 1) * 2 powi (52 - e)"
    using expo_bounds [OF assms] by (simp add: e_def)
  then have "x * 2 powi (52 - e) \<le> of_int (2 ^ 53)"
    unfolding pow2_split by simp
  then have "n \<le> 2 ^ 53"
    unfolding n_def by (rule round_even_le)
  then have "(of_int n :: rat) \<le> of_int (2 ^ 53)"
    by (simp only: of_int_le_iff)
  then have h1: "(of_int n :: rat) * 2 powi (e - 52) \<le> of_int (2 ^ 53) * 2 powi (e - 52)"
    by (intro mult_right_mono) simp_all
  have h2: "(of_int (2 ^ 53) :: rat) * 2 powi (e - 52) = 2 powi (e + 1)"
    using pow2_split [of 53 "e - 52"] by (simp add: add.commute)
  have "fl x = of_int n * 2 powi (e - 52)"
    by (simp only: fl_pos_eq [OF assms] e_def n_def)
  with h1 h2 show ?thesis
    by (simp only: e_def)
qed

lemma fl_mono_pos:
  assumes "0 < x" and "x \<le> y"
  shows "fl x \<le> fl y"
proof (cases "expo x = expo y")
  case True
  have y: "0 < y" using assms by simp
  have "x * 2 powi (52 - expo y) \<le> y * 2 powi (52 - expo y)"
    using assms(2) by (intro mult_right_mono) simp_all
  then have "round_even (x * 2 powi (52 - expo y)) \<le> round_even (y * 2 powi (52 - expo y))"
    by (rule round_even_mono)
  then have "(of_int (round_even (x * 2 powi (52 - expo y))) :: rat) * 2 powi (expo y - 52)
      \<le> of_int (round_even (y * 2 powi (52 - expo y))) * 2 powi (expo y - 52)"
    by (intro mult_right_mono) simp_all
  then show ?thesis
    using assms(1) y True by (simp add: fl_pos_eq)
next
  case False
  have y: "0 < y" using assms by simp
  from False expo_mono [OF assms] have "expo x + 1 \<le> expo y" by simp
  then have "(2::rat) powi (expo x + 1) \<le> 2 powi (expo y)"
    by (intro power_int_increasing) simp_all
  then show ?thesis
    using fl_upper [OF assms(1)] fl_lower [OF y] by linarith
qed

lemma fl_nonneg: "0 \<le> x \<Longrightarrow> 0 \<le> fl x"
proof -
  assume "0 \<le> x"
  then have "0 \<le> x * 2 powi (- (expo \<bar>x\<bar> - 52))" by simp
  then have "0 \<le> round_even (x * 2 powi (- (expo \<bar>x\<bar> - 52)))"
    using round_even_ge [of 0] by simp
  then show ?thesis by (simp add: fl_def Let_def)
qed

lemma fl_nonpos: "x \<le> 0 \<Longrightarrow> fl x \<le> 0"
proof -
  assume "x \<le> 0"
  then have "x * 2 powi (- (expo \<bar>x\<bar> - 52)) \<le> 0"
    by (simp add: mult_nonpos_nonneg)
  then have "round_even (x * 2 powi (- (expo \<bar>x\<bar> - 52))) \<le> 0"
    using round_even_le [of _ 0] by simp
  then show ?thesis by (simp add: fl_def Let_def mult_nonpos_nonneg)
qed

lemma fl_mono_nonneg: "0 \<le> x \<Longrightarrow> x \<le> y \<Longrightarrow> fl x \<le> fl y"
  using fl_mono_pos [of x y] fl_nonneg [of y] by (cases "x = 0") (auto simp: fl_def)

lemma fl_idem:
  assumes "0 \<le> x"
  shows "fl (fl x) = fl x"
proof (cases "x = 0")
  case True
  then show ?thesis by (simp add: fl_def)
next
  case False
  then have x: "0 < x" using assms by simp
  define e where "e = expo x"
  define n where "n = round_even (x * 2 powi (52 - e))"
  have fx: "fl x = of_int n * 2 powi (e - 52)"
    using x by (simp add: fl_pos_eq e_def n_def)
  have lo: "2 powi e \<le> fl x" using fl_lower [OF x] by (simp add: e_def)
  have hi: "fl x \<le> 2 powi (e + 1)" using fl_upper [OF x] by (simp add: e_def)
  have pos: "0 < fl x" using lo zero_less_power_int [of "2::rat" e] by linarith
  show ?thesis
  proof (cases "fl x = 2 powi (e + 1)")
    case True
    have ex: "expo (fl x) = e + 1"
      unfolding True by (rule expo_unique) (simp_all add: power_int_strict_increasing)
    have "fl x * 2 powi (52 - (e + 1)) = of_int (2 ^ 52)"
      unfolding True pow2_split by simp
    then have "fl (fl x) = of_int (2 ^ 52) * 2 powi (e + 1 - 52)"
      using pos by (simp only: fl_pos_eq ex round_even_of_int)
    also have "\<dots> = 2 powi (e + 1)"
      using pow2_split [of 52 "e + 1 - 52"] by (simp add: add.commute)
    finally show ?thesis using True by simp
  next
    case False
    then have "fl x < 2 powi (e + 1)" using hi by simp
    then have ex: "expo (fl x) = e" by (intro expo_unique lo)
    have "fl x * 2 powi (52 - e) = of_int n * (2 powi (e - 52) * 2 powi (52 - e))"
      by (simp add: fx)
    also have "\<dots> = of_int n" unfolding pow2_split by simp
    finally have "fl (fl x) = of_int n * 2 powi (e - 52)"
      using pos by (simp only: fl_pos_eq ex round_even_of_int)
    then show ?thesis by (simp add: fx)
  qed
qed

text \<open>The float literals of \<^verbatim>\<open>synth.py\<close>.\<close>

lemma lit_0: "lit 0 = 0" and lit_1: "lit 1 = 1" and lit_half: "lit (1 / 2) = 1 / 2"
  by code_simp+

lemma lit_values:
  "lit (1 / 10) = 3602879701896397 / 36028797018963968"
  "lit (1 / 5) = 3602879701896397 / 18014398509481984"
  "lit (3 / 10) = 5404319552844595 / 18014398509481984"
  "lit (2 / 5) = 3602879701896397 / 9007199254740992"
  "lit (3 / 5) = 5404319552844595 / 9007199254740992"
  by code_simp+

section \<open>Constraint filtering\<close>

lemma filter_by_constraints_eq:
  "filter_by_constraints actions assessments =
     filter (\<lambda>action. \<not> (\<exists>a \<in> set assessments.
                asm_is_hard_constraint a \<and> asm_action_id a = Some (act_id action))) actions"
proof -
  have "set (map (\<lambda>a. the (asm_action_id a))
              (filter (\<lambda>a. asm_is_hard_constraint a \<and> asm_action_id a \<noteq> None) assessments))
        = {i. \<exists>a \<in> set assessments. asm_is_hard_constraint a \<and> asm_action_id a = Some i}"
    by force
  then show ?thesis
    by (simp add: filter_by_constraints_def)
qed

text \<open>
  C2. \<^verbatim>\<open>filter_by_constraints\<close> returns, in input order, exactly the actions whose id is not
  the \<^verbatim>\<open>action_id\<close> of any assessment with \<^verbatim>\<open>is_hard_constraint\<close> true.
\<close>

theorem filter_by_constraints_exact:
  "filter_by_constraints actions assessments =
     filter (\<lambda>action. \<not> (\<exists>a \<in> set assessments.
                asm_is_hard_constraint a \<and> asm_action_id a = Some (act_id action))) actions"
  by (rule filter_by_constraints_eq)

theorem filter_by_constraints_exact_witness:
  "filter_by_constraints [action_a, action_b, action_c]
     [create_assessment 10 (Some 2) True ''high'', create_assessment 11 (Some 1) False ''high'',
      create_assessment 12 None True ''high'']
   = [action_a, action_c]"
  using filter_by_constraints_exact [of "[action_a, action_b, action_c]"
      "[create_assessment 10 (Some 2) True ''high'', create_assessment 11 (Some 1) False ''high'',
        create_assessment 12 None True ''high'']"]
  by (simp add: action_a_def action_b_def action_c_def create_action_def create_assessment_def)

section \<open>Monitoring triggers\<close>

lemma monitoring_loop:
  "foldl (\<lambda>triggers assessment.
            if \<not> asm_is_hard_constraint assessment \<and> asm_severity assessment = ''high''
            then triggers @ [\<lparr>trg_condition = ''Monitor: '' @ asm_claim assessment,
                             trg_action_on_trigger = ''alert''\<rparr>]
            else triggers)
     acc assessments
   = acc @ map (\<lambda>a. \<lparr>trg_condition = ''Monitor: '' @ asm_claim a,
                       trg_action_on_trigger = ''alert''\<rparr>)
             (filter (\<lambda>a. \<not> asm_is_hard_constraint a \<and> asm_severity a = ''high'') assessments)"
  by (induction assessments arbitrary: acc) simp_all

text \<open>
  C7. \<^verbatim>\<open>generate_monitoring\<close> emits, in input order, one trigger with
  \<^verbatim>\<open>action_on_trigger\<close> \<^verbatim>\<open>"alert"\<close> for each assessment that is not a hard constraint and
  has severity \<^verbatim>\<open>"high"\<close>, and nothing for any other assessment.
\<close>

theorem generate_monitoring_exact:
  "generate_monitoring assessments =
     map (\<lambda>a. \<lparr>trg_condition = ''Monitor: '' @ asm_claim a, trg_action_on_trigger = ''alert''\<rparr>)
       (filter (\<lambda>a. \<not> asm_is_hard_constraint a \<and> asm_severity a = ''high'') assessments)"
  by (simp add: generate_monitoring_def monitoring_loop)

theorem generate_monitoring_exact_witness:
  "generate_monitoring
     [create_assessment 10 (Some 1) True ''high'', create_assessment 11 (Some 1) False ''high'',
      create_assessment 12 None False ''medium'', create_assessment 13 None False ''high'']
   = [\<lparr>trg_condition = ''Monitor: Test assessment'', trg_action_on_trigger = ''alert''\<rparr>,
      \<lparr>trg_condition = ''Monitor: Test assessment'', trg_action_on_trigger = ''alert''\<rparr>]"
  using generate_monitoring_exact [of
      "[create_assessment 10 (Some 1) True ''high'', create_assessment 11 (Some 1) False ''high'',
        create_assessment 12 None False ''medium'', create_assessment 13 None False ''high'']"]
  by (simp add: create_assessment_def)

section \<open>Empty candidate lists\<close>

text \<open>
  C4. With an empty candidate-action list nothing survives the filter, the fallback path
  runs, and \<^verbatim>\<open>_find_most_reversible\<close> raises \<^verbatim>\<open>ValueError\<close>: \<^verbatim>\<open>synthesize\<close> returns no
  Decision. \<^verbatim>\<open>select_action\<close> raises \<^verbatim>\<open>ValueError\<close> on the empty list.
\<close>

theorem empty_candidates_fail:
  assumes "sit_candidate_actions situation = []"
  shows "synthesize new_id situation assessments
           = Inl (ValueError ''Cannot find most reversible from empty list'')
         \<and> (\<forall>d. synthesize new_id situation assessments \<noteq> Inr d)
         \<and> select_action [] assessments = Inl (ValueError ''Cannot select from empty action list'')"
  using assms
  by (simp add: synthesize_def filter_by_constraints_def find_most_reversible_def
      select_action_def)

theorem empty_candidates_fail_witness:
  "sit_candidate_actions (create_situation [] [] ''high'') = []
   \<and> synthesize 7 (create_situation [] [] ''high'') [create_assessment 10 (Some 1) True ''high'']
       = Inl (ValueError ''Cannot find most reversible from empty list'')
   \<and> select_action [] [create_assessment 10 (Some 1) True ''high'']
       = Inl (ValueError ''Cannot select from empty action list'')"
  using empty_candidates_fail [of "create_situation [] [] ''high''" 7
      "[create_assessment 10 (Some 1) True ''high'']"]
  by (simp add: create_situation_def)

section \<open>Selecting the most robust action\<close>

lemma list_index_Some:
  "x \<in> set xs \<Longrightarrow>
     \<exists>i. list_index xs x = Some i \<and> i < length xs \<and> xs ! i = x \<and> (\<forall>j<i. xs ! j \<noteq> x)"
proof (induction xs)
  case Nil
  then show ?case by simp
next
  case (Cons y ys)
  show ?case
  proof (cases "y = x")
    case True
    then show ?thesis by simp
  next
    case False
    with Cons.prems have "x \<in> set ys" by simp
    from Cons.IH [OF this] obtain i where
      i: "list_index ys x = Some i" "i < length ys" "ys ! i = x" "\<forall>j<i. ys ! j \<noteq> x"
      by blast
    have "\<forall>j<Suc i. (y # ys) ! j \<noteq> x"
    proof (intro allI impI)
      fix j assume "j < Suc i"
      then show "(y # ys) ! j \<noteq> x"
        using False i(4) by (cases j) simp_all
    qed
    with False i show ?thesis by simp
  qed
qed

lemma those_map_Some:
  "(\<And>x. x \<in> set xs \<Longrightarrow> key x = Some (k x)) \<Longrightarrow> those (map key xs) = Some (map k xs)"
  by (induction xs) simp_all

lemma insort_key_map:
  "insort_key f (g x) (map g ys) = map g (insort_key (\<lambda>a. f (g a)) x ys)"
  by (induction ys) simp_all

lemma sort_key_map_commute:
  "sort_key f (map g xs) = map g (sort_key (\<lambda>a. f (g a)) xs)"
  by (induction xs) (simp_all add: insort_key_map)

lemma sort_by_key_total:
  assumes "\<And>x. x \<in> set xs \<Longrightarrow> key x = Some (k x)"
  shows "sort_by_key key xs = Some (sort_key k xs)"
proof -
  have z: "zip (map k xs) xs = map (\<lambda>x. (k x, x)) xs"
    by (induction xs) simp_all
  have "map snd (sort_key fst (map (\<lambda>x. (k x, x)) xs)) = sort_key k xs"
    by (simp add: sort_key_map_commute comp_def)
  then show ?thesis
    by (simp add: sort_by_key_def those_map_Some [of xs key k, OF assms] z)
qed

lemma hd_sort_key_min:
  assumes "xs \<noteq> []"
  shows "hd (sort_key f xs) \<in> set xs \<and> (\<forall>y \<in> set xs. f (hd (sort_key f xs)) \<le> f y)"
proof -
  obtain z zs where zs: "sort_key f xs = z # zs"
    using assms by (cases "sort_key f xs") (auto dest: arg_cong [where f = length])
  have "set (z # zs) = set xs" using set_sort [of f xs] zs by simp
  moreover have "sorted (map f (z # zs))" using sorted_sort_key [of f xs] zs by simp
  ultimately show ?thesis unfolding zs by auto
qed

lemma select_action_first_max:
  assumes "actions \<noteq> []"
  shows "\<exists>i<length actions.
           select_action actions assessments = Inr (actions ! i)
           \<and> (\<forall>j<length actions.
                 score_robustness (actions ! j) assessments
                   \<le> score_robustness (actions ! i) assessments)
           \<and> (\<forall>j<i. score_robustness (actions ! j) assessments
                   < score_robustness (actions ! i) assessments)"
proof -
  define sc where "sc a = score_robustness a assessments" for a
  define pos where "pos a = the (list_index actions a)" for a
  define k where "k a = (- sc a, pos a)" for a
  define z where "z = hd (sort_key k actions)"
  have key: "map_option (\<lambda>i. (- snd x, i)) (list_index actions (fst x))
               = Some (- snd x, pos (fst x))"
    if "x \<in> set (map (\<lambda>a. (a, sc a)) actions)" for x
  proof -
    from that have "fst x \<in> set actions" by auto
    from list_index_Some [OF this] show ?thesis by (auto simp: pos_def)
  qed
  have "sort_by_key (\<lambda>x. map_option (\<lambda>i. (- snd x, i)) (list_index actions (fst x)))
          (map (\<lambda>a. (a, sc a)) actions)
        = Some (sort_key (\<lambda>x. (- snd x, pos (fst x))) (map (\<lambda>a. (a, sc a)) actions))"
    by (rule sort_by_key_total) (rule key)
  also have "sort_key (\<lambda>x. (- snd x, pos (fst x))) (map (\<lambda>a. (a, sc a)) actions)
        = map (\<lambda>a. (a, sc a)) (sort_key k actions)"
    by (simp add: sort_key_map_commute k_def [abs_def])
  finally have sorted_eq:
    "sort_by_key (\<lambda>x. map_option (\<lambda>i. (- snd x, i)) (list_index actions (fst x)))
          (map (\<lambda>a. (a, sc a)) actions)
        = Some (map (\<lambda>a. (a, sc a)) (sort_key k actions))" .
  have ne: "sort_key k actions \<noteq> []"
    using assms by (auto dest: arg_cong [where f = length])
  then obtain zs where zs: "sort_key k actions = z # zs"
    unfolding z_def by (cases "sort_key k actions") simp_all
  have sel: "select_action actions assessments = Inr z"
    using assms sorted_eq
    by (simp add: select_action_def sc_def [abs_def] zs)
  from hd_sort_key_min [OF assms, of k]
  have zin: "z \<in> set actions" and zmin: "\<And>y. y \<in> set actions \<Longrightarrow> k z \<le> k y"
    by (simp_all add: z_def)
  from list_index_Some [OF zin] obtain i where
    i: "list_index actions z = Some i" "i < length actions" "actions ! i = z"
       "\<forall>j<i. actions ! j \<noteq> z"
    by blast
  have posz: "pos z = i" using i(1) by (simp add: pos_def)
  have le: "sc (actions ! j) \<le> sc z" if "j < length actions" for j
  proof -
    from that have "actions ! j \<in> set actions" by simp
    from zmin [OF this] show ?thesis by (auto simp: k_def)
  qed
  have less: "sc (actions ! j) < sc z" if "j < i" for j
  proof -
    from that i(2) have j: "j < length actions" by simp
    then have yin: "actions ! j \<in> set actions" by simp
    from list_index_Some [OF yin] obtain iy where
      iy: "list_index actions (actions ! j) = Some iy" "\<forall>j'<iy. actions ! j' \<noteq> actions ! j"
      by blast
    have "iy \<le> j"
    proof (rule ccontr)
      assume "\<not> iy \<le> j"
      then have "j < iy" by simp
      with iy(2) show False by blast
    qed
    then have "pos (actions ! j) < i" using that iy(1) by (simp add: pos_def)
    with zmin [OF yin] show ?thesis by (auto simp: k_def posz)
  qed
  show ?thesis
    using i(2,3) sel le less unfolding sc_def by blast
qed


text \<open>
  C1. On a non-empty list \<^verbatim>\<open>select_action\<close> returns the action at some position \<open>i\<close> whose
  robustness score is maximal, and every earlier position scores strictly less: among the
  actions of maximal score it is the earliest. The result is a function of the two
  arguments alone, so equal inputs give equal selections.
\<close>

theorem select_action_maximal_earliest:
  assumes "actions \<noteq> []"
  shows "\<exists>i<length actions.
           select_action actions assessments = Inr (actions ! i)
           \<and> (\<forall>j<length actions.
                 score_robustness (actions ! j) assessments
                   \<le> score_robustness (actions ! i) assessments)
           \<and> (\<forall>j<i. score_robustness (actions ! j) assessments
                   < score_robustness (actions ! i) assessments)"
  using assms by (rule select_action_first_max)

theorem select_action_maximal_earliest_witness:
  "[action_a, action_b] \<noteq> [] \<and> select_action [action_a, action_b] [] = Inr action_a"
proof -
  have eq: "score_robustness action_b [] = score_robustness action_a []"
    by (simp add: score_robustness_def action_a_def action_b_def create_action_def)
  have ne: "[action_a, action_b] \<noteq> []" by simp
  from select_action_maximal_earliest [OF ne, of "[]"] obtain i where
    i: "i < length [action_a, action_b]"
       "select_action [action_a, action_b] [] = Inr ([action_a, action_b] ! i)"
       "\<forall>j<i. score_robustness ([action_a, action_b] ! j) []
                < score_robustness ([action_a, action_b] ! i) []"
    by blast
  have "i = 0"
  proof (rule ccontr)
    assume i0: "i \<noteq> 0"
    with i(1) have i1: "i = 1" by simp
    from i(3) i0 have "score_robustness ([action_a, action_b] ! 0) []
                         < score_robustness ([action_a, action_b] ! i) []"
      by blast
    with eq show False by (simp add: i1)
  qed
  with i(2) show ?thesis by simp
qed

section \<open>The fallback when no action survives\<close>

lemma reversibility_score_eq:
  "dict_get REVERSIBILITY_SCORES r (lit (1 / 2)) = spec_reversibility_score r"
  by (simp add: dict_get_def REVERSIBILITY_SCORES_def spec_reversibility_score_def lit_0 lit_1
      lit_half)

lemma last_sort_key_max:
  assumes "ys \<noteq> []"
  shows "\<forall>y \<in> set ys. f y \<le> f (last (sort_key f ys))"
proof -
  have ne: "sort_key f ys \<noteq> []"
    using assms by (auto dest: arg_cong [where f = length])
  then obtain zs z where zs: "sort_key f ys = zs @ [z]"
    by (metis append_butlast_last_id)
  have "set (zs @ [z]) = set ys" using set_sort [of f ys] zs by simp
  moreover have "sorted (map f (zs @ [z]))" using sorted_sort_key [of f ys] zs by simp
  ultimately show ?thesis unfolding zs by (auto simp: sorted_append)
qed

lemma last_filter_keep:
  "xs \<noteq> [] \<Longrightarrow> P (last xs) \<Longrightarrow> last (filter P xs) = last xs"
  by (induction xs rule: rev_induct) simp_all

lemma last_sort_key_stable:
  assumes "ys \<noteq> []"
  shows "last (sort_key f ys) = last (filter (\<lambda>y. f y = f (last (sort_key f ys))) ys)"
proof -
  define m where "m = f (last (sort_key f ys))"
  have ne: "sort_key f ys \<noteq> []"
    using assms by (auto dest: arg_cong [where f = length])
  have "last (filter (\<lambda>y. f y = m) (sort_key f ys)) = last (sort_key f ys)"
    using ne by (intro last_filter_keep) (simp_all add: m_def)
  then show ?thesis
    by (simp add: sort_key_stable m_def [symmetric])
qed

lemma hd_sorted_reverse:
  assumes "xs \<noteq> []"
  shows "(\<forall>x \<in> set xs. f x \<le> f (hd (sorted_reverse f xs)))
         \<and> hd (sorted_reverse f xs) = hd (filter (\<lambda>x. f x = f (hd (sorted_reverse f xs))) xs)"
proof -
  have ne: "rev xs \<noteq> []" using assms by simp
  have h: "hd (sorted_reverse f xs) = last (sort_key f (rev xs))"
    by (simp add: sorted_reverse_def hd_rev)
  show ?thesis
    unfolding h
    using last_sort_key_max [OF ne, of f] last_sort_key_stable [OF ne, of f]
    by (simp add: rev_filter [symmetric] last_rev)
qed

lemma hd_filter_index:
  "filter P xs \<noteq> [] \<Longrightarrow>
     \<exists>i<length xs. hd (filter P xs) = xs ! i \<and> P (xs ! i) \<and> (\<forall>j<i. \<not> P (xs ! j))"
proof (induction xs)
  case Nil
  then show ?case by simp
next
  case (Cons x xs)
  show ?case
  proof (cases "P x")
    case True
    then show ?thesis by auto
  next
    case False
    with Cons.prems have "filter P xs \<noteq> []" by simp
    from Cons.IH [OF this] obtain i where
      i: "i < length xs" "hd (filter P xs) = xs ! i" "P (xs ! i)" "\<forall>j<i. \<not> P (xs ! j)"
      by blast
    have "\<forall>j<Suc i. \<not> P ((x # xs) ! j)"
    proof (intro allI impI)
      fix j assume "j < Suc i"
      then show "\<not> P ((x # xs) ! j)" using False i(4) by (cases j) simp_all
    qed
    with False i(1,2,3) show ?thesis
      by (intro exI [of _ "Suc i"]) simp
  qed
qed

lemma find_most_reversible_first_best:
  assumes "actions \<noteq> []"
  shows "\<exists>i<length actions.
           find_most_reversible actions = Inr (actions ! i)
           \<and> (\<forall>j<length actions.
                 spec_reversibility_score (act_reversibility (actions ! j))
                   \<le> spec_reversibility_score (act_reversibility (actions ! i)))
           \<and> (\<forall>j<i. spec_reversibility_score (act_reversibility (actions ! j))
                   < spec_reversibility_score (act_reversibility (actions ! i)))"
proof -
  define f where "f a = spec_reversibility_score (act_reversibility a)" for a :: ActionSpec
  define z where "z = hd (sorted_reverse f actions)"
  have ne: "sorted_reverse f actions \<noteq> []"
    using assms by (auto simp: sorted_reverse_def dest: arg_cong [where f = length])
  then obtain zs where zs: "sorted_reverse f actions = z # zs"
    unfolding z_def by (cases "sorted_reverse f actions") simp_all
  have sel: "find_most_reversible actions = Inr z"
    using assms zs by (simp add: find_most_reversible_def reversibility_score_eq f_def [abs_def])
  from hd_sorted_reverse [OF assms, of f]
  have zmax: "\<And>x. x \<in> set actions \<Longrightarrow> f x \<le> f z"
    and zfirst: "z = hd (filter (\<lambda>x. f x = f z) actions)"
    by (simp_all add: z_def)
  have "z \<in> set actions"
    using ne set_sort [of f "rev actions"] zs
    by (metis list.set_intros(1) set_rev sorted_reverse_def)
  then have "filter (\<lambda>x. f x = f z) actions \<noteq> []"
    by (auto simp: filter_empty_conv)
  from hd_filter_index [OF this] obtain i where
    i: "i < length actions" "hd (filter (\<lambda>x. f x = f z) actions) = actions ! i"
       "\<forall>j<i. f (actions ! j) \<noteq> f z"
    by blast
  have zi: "actions ! i = z" using i(2) zfirst by simp
  have le: "f (actions ! j) \<le> f z" if "j < length actions" for j
    using that zmax by simp
  have less: "f (actions ! j) < f z" if "j < i" for j
  proof -
    from that i(1) have "j < length actions" by simp
    from le [OF this] i(3) that show ?thesis by (simp add: less_le)
  qed
  show ?thesis
    using i(1) sel le less unfolding zi [symmetric] f_def by blast
qed

text \<open>
  C3. When every candidate action is referenced by a hard-constraint assessment,
  \<^verbatim>\<open>synthesize\<close> still returns a Decision. Its selected action is the candidate at some
  position \<open>i\<close> whose reversibility score is maximal among all candidates, every earlier
  candidate scores strictly less, and the robustness basis says that no action passed all
  hard constraints.
\<close>

theorem synthesize_fallback_most_reversible:
  assumes "sit_candidate_actions situation \<noteq> []"
    and "\<forall>a \<in> set (sit_candidate_actions situation).
           \<exists>x \<in> set assessments. asm_is_hard_constraint x \<and> asm_action_id x = Some (act_id a)"
  shows "\<exists>d i. synthesize new_id situation assessments = Inr d
           \<and> i < length (sit_candidate_actions situation)
           \<and> dec_selected_action d = sit_candidate_actions situation ! i
           \<and> (\<forall>j<length (sit_candidate_actions situation).
                 spec_reversibility_score (act_reversibility (sit_candidate_actions situation ! j))
                   \<le> spec_reversibility_score (act_reversibility (dec_selected_action d)))
           \<and> (\<forall>j<i. spec_reversibility_score (act_reversibility (sit_candidate_actions situation ! j))
                   < spec_reversibility_score (act_reversibility (dec_selected_action d)))
           \<and> dec_robustness_basis d
               = ''No action passed all hard constraints. Selected ''
                 @ quoted (act_name (dec_selected_action d))
                 @ '' as most reversible fallback option.''"
proof -
  have none: "filter_by_constraints (sit_candidate_actions situation) assessments = []"
    using assms(2) by (simp add: filter_by_constraints_eq filter_empty_conv)
  from find_most_reversible_first_best [OF assms(1)] obtain i where
    i: "i < length (sit_candidate_actions situation)"
       "find_most_reversible (sit_candidate_actions situation)
          = Inr (sit_candidate_actions situation ! i)"
       "\<forall>j<length (sit_candidate_actions situation).
           spec_reversibility_score (act_reversibility (sit_candidate_actions situation ! j))
             \<le> spec_reversibility_score (act_reversibility (sit_candidate_actions situation ! i))"
       "\<forall>j<i. spec_reversibility_score (act_reversibility (sit_candidate_actions situation ! j))
             < spec_reversibility_score (act_reversibility (sit_candidate_actions situation ! i))"
    by blast
  show ?thesis
    using i by (simp add: synthesize_def none Let_def) (rule exI [of _ i], simp)
qed

theorem synthesize_fallback_most_reversible_witness:
  "sit_candidate_actions all_constrained \<noteq> []
   \<and> (\<exists>d. synthesize 7 all_constrained all_hard = Inr d
          \<and> dec_selected_action d = action_c
          \<and> dec_robustness_basis d
              = ''No action passed all hard constraints. Selected '' @ quoted ''C''
                @ '' as most reversible fallback option.'')"
proof -
  have cands: "sit_candidate_actions all_constrained = [action_a, action_c, action_d]"
    by (simp add: all_constrained_def create_situation_def)
  have h1: "sit_candidate_actions all_constrained \<noteq> []"
    by (simp add: cands)
  have h2: "\<forall>a \<in> set (sit_candidate_actions all_constrained).
              \<exists>x \<in> set all_hard. asm_is_hard_constraint x \<and> asm_action_id x = Some (act_id a)"
    by (simp add: cands all_hard_def create_assessment_def action_a_def action_c_def
        action_d_def create_action_def)
  have rs: "spec_reversibility_score (act_reversibility action_a) = 1 / 2"
    "spec_reversibility_score (act_reversibility action_c) = 1"
    "spec_reversibility_score (act_reversibility action_d) = 1"
    by (simp_all add: spec_reversibility_score_def action_a_def action_c_def action_d_def
        create_action_def)
  from synthesize_fallback_most_reversible [OF h1 h2, of 7] obtain d i where
    d: "synthesize 7 all_constrained all_hard = Inr d"
    and i: "i < length (sit_candidate_actions all_constrained)"
    and sel: "dec_selected_action d = sit_candidate_actions all_constrained ! i"
    and best: "\<forall>j<length (sit_candidate_actions all_constrained).
        spec_reversibility_score (act_reversibility (sit_candidate_actions all_constrained ! j))
          \<le> spec_reversibility_score (act_reversibility (dec_selected_action d))"
    and first: "\<forall>j<i.
        spec_reversibility_score (act_reversibility (sit_candidate_actions all_constrained ! j))
          < spec_reversibility_score (act_reversibility (dec_selected_action d))"
    and basis: "dec_robustness_basis d
        = ''No action passed all hard constraints. Selected ''
          @ quoted (act_name (dec_selected_action d)) @ '' as most reversible fallback option.''"
    by blast
  from i have "i = 0 \<or> i = 1 \<or> i = 2" by (simp add: cands) arith
  moreover have "i \<noteq> 0"
  proof
    assume "i = 0"
    with best [rule_format, of 1] sel show False by (simp add: cands rs)
  qed
  moreover have "i \<noteq> 2"
  proof
    assume "i = 2"
    with first [rule_format, of 1] sel show False by (simp add: cands rs)
  qed
  ultimately have "i = 1" by blast
  with sel have "dec_selected_action d = action_c" by (simp add: cands)
  with d basis h1 show ?thesis
    by (simp add: action_c_def create_action_def)
qed

section \<open>The robustness score\<close>

lemma severity_weight_eq:
  "dict_get SEVERITY_WEIGHTS s (lit (2 / 10)) = spec_severity_weight s"
  by (simp add: dict_get_def SEVERITY_WEIGHTS_def spec_severity_weight_def)

lemma severity_weight_nonneg: "0 \<le> spec_severity_weight s"
  by (simp add: spec_severity_weight_def lit_values)

lemma reversibility_score_range:
  "0 \<le> spec_reversibility_score r \<and> spec_reversibility_score r \<le> 1"
  by (simp add: spec_reversibility_score_def)

lemma score_robustness_formula:
  "score_robustness action assessments =
     fadd (fmul (lit (6 / 10)) (spec_reversibility_score (act_reversibility action)))
       (fmul (lit (4 / 10))
          (max 0 (fsub 1 (py_sum (map (\<lambda>w. spec_severity_weight (asm_severity w))
              (filter (\<lambda>a. \<not> asm_is_hard_constraint a \<and> asm_action_id a = Some (act_id action))
                 assessments))))))"
proof -
  have feq: "filter (\<lambda>a. asm_action_id a = Some (act_id action) \<and> \<not> asm_is_hard_constraint a) assessments
      = filter (\<lambda>a. \<not> asm_is_hard_constraint a \<and> asm_action_id a = Some (act_id action)) assessments"
    by (rule filter_cong) auto
  show ?thesis
    unfolding score_robustness_def Let_def reversibility_score_eq severity_weight_eq lit_0 lit_1
      feq
    by (rule refl)
qed

lemma foldl_fadd_nonneg:
  "0 \<le> acc \<Longrightarrow> \<forall>x \<in> set xs. 0 \<le> x \<Longrightarrow> 0 \<le> foldl fadd acc xs"
proof (induction xs arbitrary: acc)
  case Nil
  then show ?case by simp
next
  case (Cons x xs)
  have "0 \<le> fadd acc x" using Cons.prems by (simp add: fadd_def fl_nonneg)
  with Cons show ?case by simp
qed

lemma py_sum_nonneg: "\<forall>x \<in> set xs. 0 \<le> x \<Longrightarrow> 0 \<le> py_sum xs"
  by (simp add: py_sum_def foldl_fadd_nonneg)

lemma py_sum_snoc: "py_sum (xs @ [x]) = fadd (py_sum xs) x"
  by (simp add: py_sum_def)

lemma py_sum_rounded: "\<forall>x \<in> set xs. 0 \<le> x \<Longrightarrow> fl (py_sum xs) = py_sum xs"
proof (induction xs rule: rev_induct)
  case Nil
  then show ?case by (simp add: py_sum_def fl_def)
next
  case (snoc x xs)
  then have "0 \<le> py_sum xs + x" using py_sum_nonneg [of xs] by simp
  then show ?case by (simp add: py_sum_snoc fadd_def fl_idem)
qed

lemma fl_one: "fl 1 = 1"
  using lit_1 by (simp add: lit_def)

lemma clamp_range:
  assumes "0 \<le> p"
  shows "0 \<le> max 0 (fsub 1 p) \<and> max 0 (fsub 1 p) \<le> 1"
proof (cases "0 < 1 - p")
  case True
  then have "fl (1 - p) \<le> fl 1" using assms by (intro fl_mono_pos) simp_all
  then show ?thesis by (simp add: fsub_def fl_one)
next
  case False
  then have "fl (1 - p) \<le> 0" by (intro fl_nonpos) simp
  then show ?thesis by (simp add: fsub_def)
qed

lemma fl_clamp_mono: "x \<le> y \<Longrightarrow> max 0 (fl x) \<le> max 0 (fl y)"
proof (cases "0 < x")
  case True
  assume "x \<le> y"
  with True have "fl x \<le> fl y" by (rule fl_mono_pos)
  then show ?thesis by (simp add: max_def)
next
  case False
  then have "fl x \<le> 0" by (intro fl_nonpos) simp
  then show ?thesis by (simp add: max_def)
qed

lemma weighted_sum_range:
  assumes "0 \<le> a" "fl a = a" "0 \<le> b" "fl b = b" "a + b = 1"
    and "0 \<le> r" "r \<le> 1" "0 \<le> c" "c \<le> 1"
  shows "0 \<le> fadd (fmul a r) (fmul b c) \<and> fadd (fmul a r) (fmul b c) \<le> 1"
proof -
  have a0: "0 \<le> fmul a r"
    using assms(1,6) by (simp add: fmul_def fl_nonneg)
  have b0: "0 \<le> fmul b c"
    using assms(3,8) by (simp add: fmul_def fl_nonneg)
  have "a * r \<le> a"
    using assms(1,7) by (simp add: mult_left_le)
  with assms(1,6) have "fl (a * r) \<le> fl a"
    by (intro fl_mono_nonneg) simp_all
  then have a1: "fmul a r \<le> a"
    by (simp add: fmul_def assms(2))
  have "b * c \<le> b"
    using assms(3,9) by (simp add: mult_left_le)
  with assms(3,8) have "fl (b * c) \<le> fl b"
    by (intro fl_mono_nonneg) simp_all
  then have b1: "fmul b c \<le> b"
    by (simp add: fmul_def assms(4))
  have "fl (fmul a r + fmul b c) \<le> fl (a + b)"
    using a0 b0 a1 b1 by (intro fl_mono_nonneg) simp_all
  moreover have "0 \<le> fl (fmul a r + fmul b c)"
    using a0 b0 by (intro fl_nonneg) simp
  ultimately show ?thesis
    by (simp add: fadd_def assms(5) fl_one)
qed

lemma lit_rounded: "0 \<le> x \<Longrightarrow> 0 \<le> lit x \<and> fl (lit x) = lit x"
  by (simp add: lit_def fl_nonneg fl_idem)

text \<open>
  C5. \<^verbatim>\<open>score_robustness\<close> returns \<open>0.6 * reversibility_score + 0.4 * max(0, 1 - warning_penalty)\<close>
  in float arithmetic, where the penalty is the left-to-right float sum of the severity
  weights of the assessments that are not hard constraints and carry the action's id, and
  the result lies between 0 and 1.
\<close>

theorem score_robustness_formula_range:
  "score_robustness action assessments =
     fadd (fmul (lit (6 / 10)) (spec_reversibility_score (act_reversibility action)))
       (fmul (lit (4 / 10))
          (max 0 (fsub 1 (py_sum (map (\<lambda>w. spec_severity_weight (asm_severity w))
              (filter (\<lambda>a. \<not> asm_is_hard_constraint a \<and> asm_action_id a = Some (act_id action))
                 assessments))))))
   \<and> 0 \<le> score_robustness action assessments
   \<and> score_robustness action assessments \<le> 1"
proof -
  define p where "p = py_sum (map (\<lambda>w. spec_severity_weight (asm_severity w))
              (filter (\<lambda>a. \<not> asm_is_hard_constraint a \<and> asm_action_id a = Some (act_id action))
                 assessments))"
  have "0 \<le> p"
    unfolding p_def by (rule py_sum_nonneg) (simp add: severity_weight_nonneg)
  note c = clamp_range [OF this]
  note r = reversibility_score_range [of "act_reversibility action"]
  have c6: "0 \<le> lit (6 / 10)" "fl (lit (6 / 10)) = lit (6 / 10)"
    using lit_rounded [of "6 / 10"] by simp_all
  have c4: "0 \<le> lit (4 / 10)" "fl (lit (4 / 10)) = lit (4 / 10)"
    using lit_rounded [of "4 / 10"] by simp_all
  have one: "lit (6 / 10) + lit (4 / 10) = 1"
    by (simp add: lit_values)
  have "0 \<le> fadd (fmul (lit (6 / 10)) (spec_reversibility_score (act_reversibility action)))
               (fmul (lit (4 / 10)) (max 0 (fsub 1 p)))
        \<and> fadd (fmul (lit (6 / 10)) (spec_reversibility_score (act_reversibility action)))
               (fmul (lit (4 / 10)) (max 0 (fsub 1 p))) \<le> 1"
    using c6 c4 one c r by (intro weighted_sum_range) blast+
  then show ?thesis
    unfolding score_robustness_formula p_def by (intro conjI refl) simp_all
qed

lemma score_robustness_snoc_le:
  assumes "\<not> asm_is_hard_constraint w" "asm_action_id w = Some (act_id action)"
  shows "score_robustness action (assessments @ [w]) \<le> score_robustness action assessments"
proof -
  define ws where "ws = map (\<lambda>w. spec_severity_weight (asm_severity w))
              (filter (\<lambda>a. \<not> asm_is_hard_constraint a \<and> asm_action_id a = Some (act_id action))
                 assessments)"
  define x where "x = spec_severity_weight (asm_severity w)"
  define r where "r = fmul (lit (6 / 10)) (spec_reversibility_score (act_reversibility action))"
  have nn: "\<forall>y \<in> set ws. 0 \<le> y" by (auto simp: ws_def severity_weight_nonneg)
  have x0: "0 \<le> x" by (simp add: x_def severity_weight_nonneg)
  have p0: "0 \<le> py_sum ws" using nn by (rule py_sum_nonneg)
  have "fl (py_sum ws) \<le> fl (py_sum ws + x)"
    using p0 x0 by (intro fl_mono_nonneg) simp_all
  then have pm: "py_sum ws \<le> py_sum (ws @ [x])"
    by (simp add: py_sum_snoc fadd_def py_sum_rounded [OF nn])
  have cm: "max 0 (fsub 1 (py_sum (ws @ [x]))) \<le> max 0 (fsub 1 (py_sum ws))"
    unfolding fsub_def using pm by (intro fl_clamp_mono) simp
  have c4: "0 \<le> lit (4 / 10)" using lit_rounded [of "4 / 10"] by simp
  have bm: "fmul (lit (4 / 10)) (max 0 (fsub 1 (py_sum (ws @ [x]))))
              \<le> fmul (lit (4 / 10)) (max 0 (fsub 1 (py_sum ws)))"
    unfolding fmul_def using c4 cm by (intro fl_mono_nonneg mult_left_mono mult_nonneg_nonneg) simp_all
  have b0: "0 \<le> fmul (lit (4 / 10)) (max 0 (fsub 1 (py_sum (ws @ [x]))))"
    unfolding fmul_def using c4 by (intro fl_nonneg mult_nonneg_nonneg) simp_all
  have r0: "0 \<le> r"
    unfolding r_def fmul_def
    using reversibility_score_range [of "act_reversibility action"] lit_rounded [of "6 / 10"]
    by (intro fl_nonneg mult_nonneg_nonneg) simp_all
  have main: "fadd r (fmul (lit (4 / 10)) (max 0 (fsub 1 (py_sum (ws @ [x])))))
          \<le> fadd r (fmul (lit (4 / 10)) (max 0 (fsub 1 (py_sum ws))))"
    unfolding fadd_def using r0 b0 bm by (intro fl_mono_nonneg) simp_all
  have e: "map (\<lambda>w. spec_severity_weight (asm_severity w))
             (filter (\<lambda>a. \<not> asm_is_hard_constraint a \<and> asm_action_id a = Some (act_id action))
                (assessments @ [w]))
           = map (\<lambda>w. spec_severity_weight (asm_severity w))
               (filter (\<lambda>a. \<not> asm_is_hard_constraint a \<and> asm_action_id a = Some (act_id action))
                  assessments) @ [spec_severity_weight (asm_severity w)]"
    using assms by simp
  show ?thesis
    unfolding score_robustness_formula e using main [unfolded ws_def x_def r_def] .
qed

text \<open>
  C9. Appending an assessment that is not a hard constraint and carries the action's id
  never increases the action's robustness score.
\<close>

theorem warning_never_increases_score:
  assumes "\<not> asm_is_hard_constraint w" "asm_action_id w = Some (act_id action)"
  shows "score_robustness action (assessments @ [w]) \<le> score_robustness action assessments"
  using assms by (rule score_robustness_snoc_le)

text \<open>
  The roundings met when the example scores below are computed, each checked by evaluation.
\<close>

lemma float_steps:
  "fadd (0) (3602879701896397 / 36028797018963968) = 3602879701896397 / 36028797018963968"
  "fadd (3602879701896397 / 36028797018963968) (3602879701896397 / 18014398509481984) = 1351079888211149 / 4503599627370496"
  "fadd (1351079888211149 / 4503599627370496) (5404319552844595 / 18014398509481984) = 1351079888211149 / 2251799813685248"
  "fsub (1) (1351079888211149 / 2251799813685248) = 900719925474099 / 2251799813685248"
  "fmul (3602879701896397 / 9007199254740992) (900719925474099 / 2251799813685248) = 2882303761517117 / 18014398509481984"
  "fmul (5404319552844595 / 9007199254740992) (1 / 2) = 5404319552844595 / 18014398509481984"
  "fadd (5404319552844595 / 18014398509481984) (2882303761517117 / 18014398509481984) = 517913957147607 / 1125899906842624"
  "fadd (0) (5404319552844595 / 18014398509481984) = 5404319552844595 / 18014398509481984"
  "fadd (5404319552844595 / 18014398509481984) (3602879701896397 / 18014398509481984) = 1 / 2"
  "fadd (1 / 2) (3602879701896397 / 36028797018963968) = 5404319552844595 / 9007199254740992"
  "fsub (1) (5404319552844595 / 9007199254740992) = 3602879701896397 / 9007199254740992"
  "fmul (3602879701896397 / 9007199254740992) (3602879701896397 / 9007199254740992) = 1441151880758559 / 9007199254740992"
  "fadd (5404319552844595 / 18014398509481984) (1441151880758559 / 9007199254740992) = 8286623314361713 / 18014398509481984"
  "fadd (5404319552844595 / 18014398509481984) (5404319552844595 / 18014398509481984) = 5404319552844595 / 9007199254740992"
  "fsub (1) (0) = 1"
  "fmul (3602879701896397 / 9007199254740992) (1) = 3602879701896397 / 9007199254740992"
  "fmul (5404319552844595 / 9007199254740992) (1) = 5404319552844595 / 9007199254740992"
  "fadd (5404319552844595 / 9007199254740992) (3602879701896397 / 9007199254740992) = 1"
  by code_simp+

lemma warning_weights:
  "spec_severity_weight ''low'' = 3602879701896397 / 36028797018963968"
  "spec_severity_weight ''medium'' = 3602879701896397 / 18014398509481984"
  "spec_severity_weight ''high'' = 5404319552844595 / 18014398509481984"
  by (simp_all add: spec_severity_weight_def lit_values)

lemma score_a_three:
  "score_robustness action_a three_warnings = 517913957147607 / 1125899906842624"
  by (simp add: score_robustness_formula three_warnings_def
      create_assessment_def action_a_def create_action_def spec_reversibility_score_def
      warning_weights py_sum_def lit_values float_steps)




lemma score_c_clean:
  "score_robustness action_c [create_assessment 10 (Some 1) True ''high''] = 1"
  by (simp add: score_robustness_formula
      create_assessment_def action_c_def create_action_def spec_reversibility_score_def
      py_sum_def lit_values float_steps)

theorem score_robustness_formula_range_witness:
  "score_robustness action_a three_warnings = 517913957147607 / 1125899906842624
   \<and> 0 \<le> score_robustness action_a three_warnings
   \<and> score_robustness action_a three_warnings \<le> 1"
proof -
  from score_robustness_formula_range [of action_a three_warnings] score_a_three show ?thesis
    by simp
qed

theorem warning_never_increases_score_witness:
  "\<not> asm_is_hard_constraint (create_assessment 20 (Some 1) False ''low'')
   \<and> asm_action_id (create_assessment 20 (Some 1) False ''low'') = Some (act_id action_a)
   \<and> score_robustness action_a ([] @ [create_assessment 20 (Some 1) False ''low''])
        \<le> score_robustness action_a []"
  using warning_never_increases_score [of "create_assessment 20 (Some 1) False ''low''" action_a "[]"]
  by (simp add: create_assessment_def action_a_def create_action_def)

section \<open>Hard constraints of the constraint evaluator\<close>

lemma constraint_step_hard:
  "map (\<lambda>x. (asm_action_id x, asm_severity x, asm_confidence x, asm_support x))
     (filter asm_is_hard_constraint (constraint_step fresh s h acc a))
   = map (\<lambda>x. (asm_action_id x, asm_severity x, asm_confidence x, asm_support x))
       (filter asm_is_hard_constraint acc)
     @ (if h \<and> act_time_sensitivity a = Some ''flexible''
        then [(Some (act_id a), ''high'', ''high'', map obs_id (sit_observations s))] else [])"
  by (simp add: constraint_step_def Let_def)

lemma constraint_loop_hard:
  "map (\<lambda>x. (asm_action_id x, asm_severity x, asm_confidence x, asm_support x))
     (filter asm_is_hard_constraint (foldl (constraint_step fresh s h) acc as))
   = map (\<lambda>x. (asm_action_id x, asm_severity x, asm_confidence x, asm_support x))
       (filter asm_is_hard_constraint acc)
     @ (if h then map (\<lambda>a. (Some (act_id a), ''high'', ''high'', map obs_id (sit_observations s)))
                   (filter (\<lambda>a. act_time_sensitivity a = Some ''flexible'') as)
        else [])"
proof (induction as arbitrary: acc)
  case Nil
  then show ?case by simp
next
  case (Cons a as)
  show ?case
    unfolding foldl_Cons Cons.IH constraint_step_hard by simp
qed

lemma length_filter_map:
  "length (filter (\<lambda>x. Q (f x)) xs) = length (filter Q (map f xs))"
  by (induction xs) simp_all

text \<open>
  Searching the lower-cased content for a keyword is the case-insensitive search: the
  content has a run of code points that are, place by place, the same letters as the
  keyword. (The dotted capital I lowers to \<^verbatim>\<open>i\<close> followed by a combining dot, so that
  \<^verbatim>\<open>i\<close> could only be the last letter of a match; no keyword ends in \<^verbatim>\<open>i\<close>.)
\<close>

lemma lower_append: "lower (xs @ ys) = lower xs @ lower ys"
  by (simp add: lower_def)

lemma lower_Cons: "lower (a # t) = lower_codepoint a @ lower t"
  by (simp add: lower_def)

lemma same_letter_lower:
  "same_letter a k \<Longrightarrow> k < 128 \<Longrightarrow> k < 65 \<or> 90 < k \<Longrightarrow> lower_codepoint a = [k]"
  by (auto simp: same_letter_def lower_codepoint_def)

lemma lower_same_letter: "lower_codepoint a = [k] \<Longrightarrow> same_letter a k"
  by (auto simp: same_letter_def lower_codepoint_def split: if_splits)

lemma lower_codepoint_single: "a \<noteq> 0x130 \<Longrightarrow> \<exists>x. lower_codepoint a = [x]"
  by (simp add: lower_codepoint_def)

lemma lower_dotted: "lower_codepoint 0x130 = [0x69, 0x307]"
  by (simp add: lower_codepoint_def)

lemma same_letters_lower:
  "list_all2 same_letter u kw \<Longrightarrow> \<forall>k \<in> set kw. k < 128 \<and> (k < 65 \<or> 90 < k) \<Longrightarrow> lower u = kw"
proof (induction u kw rule: list_all2_induct)
  case Nil
  then show ?case by (simp add: lower_def)
next
  case (Cons a u k kw)
  then show ?case by (simp add: lower_Cons same_letter_lower)
qed

lemma lower_prefix_letters:
  assumes "lower t = ks @ ys"
    and "\<forall>k \<in> set ks. k < 128 \<and> (k < 65 \<or> 90 < k)"
    and "ks \<noteq> [] \<longrightarrow> last ks \<noteq> 0x69"
  shows "\<exists>u ss. t = u @ ss \<and> list_all2 same_letter u ks"
  using assms
proof (induction ks arbitrary: t)
  case Nil
  then show ?case by simp
next
  case (Cons k ks)
  from Cons.prems(1) obtain a tr where t: "t = a # tr"
    by (cases t) (simp_all add: lower_def)
  have eq: "lower_codepoint a @ lower tr = k # ks @ ys"
    using Cons.prems(1) by (simp add: t lower_Cons)
  have na: "a \<noteq> 0x130"
  proof
    assume a: "a = 0x130"
    with eq have k: "k = 0x69" and rest: "0x307 # lower tr = ks @ ys"
      by (simp_all add: lower_dotted)
    show False
    proof (cases ks)
      case Nil
      with k Cons.prems(3) show False by simp
    next
      case (Cons k2 ks2)
      with rest have "k2 = 0x307" by simp
      with Cons Cons.prems(2) show False by simp
    qed
  qed
  from lower_codepoint_single [OF na] obtain x where x: "lower_codepoint a = [x]" by blast
  with eq have xk: "lower_codepoint a = [k]" and rest: "lower tr = ks @ ys" by simp_all
  have "\<forall>k \<in> set ks. k < 128 \<and> (k < 65 \<or> 90 < k)" using Cons.prems(2) by simp
  moreover have "ks \<noteq> [] \<longrightarrow> last ks \<noteq> 0x69" using Cons.prems(3) by auto
  ultimately obtain u ss where u: "tr = u @ ss" "list_all2 same_letter u ks"
    using Cons.IH [OF rest] by blast
  have "t = (a # u) @ ss \<and> list_all2 same_letter (a # u) (k # ks)"
    using u t lower_same_letter [OF xk] by simp
  then show ?case by blast
qed

lemma lower_sublist_letters:
  assumes "lower content = xs @ kw @ ys"
    and "\<forall>k \<in> set kw. k < 128 \<and> (k < 65 \<or> 90 < k)"
    and "kw \<noteq> []" and "last kw \<noteq> 0x69"
  shows "\<exists>ps u ss. content = ps @ u @ ss \<and> list_all2 same_letter u kw"
  using assms(1)
proof (induction content arbitrary: xs)
  case Nil
  with assms(3) show ?case by (simp add: lower_def)
next
  case (Cons a t)
  show ?case
  proof (cases xs)
    case Nil
    with Cons.prems have "lower (a # t) = kw @ ys" by simp
    from lower_prefix_letters [OF this assms(2)] assms(4)
    obtain u ss where "a # t = u @ ss" "list_all2 same_letter u kw" by blast
    then have "a # t = [] @ u @ ss \<and> list_all2 same_letter u kw" by simp
    then show ?thesis by blast
  next
    case (Cons x xr)
    with Cons.prems have eq: "lower_codepoint a @ lower t = x # xr @ kw @ ys"
      by (simp add: lower_Cons)
    have "\<exists>zs. lower t = zs @ kw @ ys"
    proof (cases "a = 0x130")
      case False
      from lower_codepoint_single [OF this] obtain y where "lower_codepoint a = [y]" by blast
      with eq have "lower t = xr @ kw @ ys" by simp
      then show ?thesis by blast
    next
      case True
      with eq have rest: "0x307 # lower t = xr @ kw @ ys" by (simp add: lower_dotted)
      show ?thesis
      proof (cases xr)
        case Nil
        with rest assms(3) have "hd kw = 0x307" by (cases kw) simp_all
        with assms(2,3) show ?thesis by (cases kw) simp_all
      next
        case (Cons x2 xq)
        with rest have "lower t = xq @ kw @ ys" by simp
        then show ?thesis by blast
      qed
    qed
    then obtain zs where "lower t = zs @ kw @ ys" by blast
    from Cons.IH [OF this] obtain ps u ss where
      "t = ps @ u @ ss" "list_all2 same_letter u kw" by blast
    then have "a # t = (a # ps) @ u @ ss \<and> list_all2 same_letter u kw" by simp
    then show ?thesis by blast
  qed
qed

lemma sublist_lower_iff:
  assumes "\<forall>k \<in> set kw. k < 128 \<and> (k < 65 \<or> 90 < k)" and "kw \<noteq> []" and "last kw \<noteq> 0x69"
  shows "sublist kw (lower content) \<longleftrightarrow> (\<exists>ps u ss. content = ps @ u @ ss \<and> list_all2 same_letter u kw)"
proof
  assume "sublist kw (lower content)"
  then obtain xs ys where "lower content = xs @ kw @ ys" by (auto simp: sublist_def)
  from lower_sublist_letters [OF this assms] show "\<exists>ps u ss. content = ps @ u @ ss \<and> list_all2 same_letter u kw" .
next
  assume "\<exists>ps u ss. content = ps @ u @ ss \<and> list_all2 same_letter u kw"
  then obtain ps u ss where t: "content = ps @ u @ ss" and l: "list_all2 same_letter u kw" by blast
  from same_letters_lower [OF l assms(1)] have "lower content = lower ps @ kw @ lower ss"
    by (simp add: t lower_append)
  then show "sublist kw (lower content)" by (auto simp: sublist_def)
qed

lemma deadline_keywords_plain:
  "\<forall>kw \<in> set DEADLINE_KEYWORDS.
     (\<forall>k \<in> set (codepoints kw). k < 128 \<and> (k < 65 \<or> 90 < k))
     \<and> codepoints kw \<noteq> [] \<and> last (codepoints kw) \<noteq> 0x69"
  by (simp add: DEADLINE_KEYWORDS_def codepoints_def)

lemma has_deadline_indicator_iff:
  "has_deadline_indicator situation \<longleftrightarrow>
      (\<exists>obs \<in> set (sit_observations situation). \<exists>kw \<in> set DEADLINE_KEYWORDS.
         \<exists>ps u ss. obs_content obs = ps @ u @ ss \<and> list_all2 same_letter u (codepoints kw))"
proof -
  have "sublist (codepoints kw) (lower content)
          \<longleftrightarrow> (\<exists>ps u ss. content = ps @ u @ ss \<and> list_all2 same_letter u (codepoints kw))"
    if "kw \<in> set DEADLINE_KEYWORDS" for kw content
    using deadline_keywords_plain that by (intro sublist_lower_iff) blast+
  then show ?thesis
    by (simp add: has_deadline_indicator_def list_ex_iff Let_def)
qed

text \<open>
  C6. The situation is deadline-bearing exactly when the content of some observation
  contains a deadline keyword case-insensitively. The hard constraints that
  \<^verbatim>\<open>ConstraintAgent.assess\<close> emits are, in candidate order, one for each candidate action with
  \<^verbatim>\<open>time_sensitivity\<close> \<^verbatim>\<open>"flexible"\<close> when the situation is deadline-bearing, each with
  severity and confidence high and the ids of all observations as support, and none
  otherwise. So the number of hard constraints carrying an id is the number of flexible
  candidates with that id: one per action, however many observations or keywords match.
\<close>

theorem ConstraintAgent_hard_constraints:
  "(has_deadline_indicator situation \<longleftrightarrow>
      (\<exists>obs \<in> set (sit_observations situation). \<exists>kw \<in> set DEADLINE_KEYWORDS.
         \<exists>ps u ss. obs_content obs = ps @ u @ ss \<and> list_all2 same_letter u (codepoints kw)))
   \<and> map (\<lambda>x. (asm_action_id x, asm_severity x, asm_confidence x, asm_support x))
       (filter asm_is_hard_constraint (ConstraintAgent_assess fresh situation))
     = (if has_deadline_indicator situation
        then map (\<lambda>a. (Some (act_id a), ''high'', ''high'',
                        map obs_id (sit_observations situation)))
               (filter (\<lambda>a. act_time_sensitivity a = Some ''flexible'')
                  (sit_candidate_actions situation))
        else [])
   \<and> (\<forall>i. length (filter (\<lambda>x. asm_is_hard_constraint x \<and> asm_action_id x = Some i)
                   (ConstraintAgent_assess fresh situation))
          = (if has_deadline_indicator situation
             then length (filter (\<lambda>a. act_time_sensitivity a = Some ''flexible'' \<and> act_id a = i)
                            (sit_candidate_actions situation))
             else 0))"
proof (intro conjI allI)
  show "has_deadline_indicator situation \<longleftrightarrow>
      (\<exists>obs \<in> set (sit_observations situation). \<exists>kw \<in> set DEADLINE_KEYWORDS.
         \<exists>ps u ss. obs_content obs = ps @ u @ ss \<and> list_all2 same_letter u (codepoints kw))"
    by (rule has_deadline_indicator_iff)
next
  show fields: "map (\<lambda>x. (asm_action_id x, asm_severity x, asm_confidence x, asm_support x))
       (filter asm_is_hard_constraint (ConstraintAgent_assess fresh situation))
     = (if has_deadline_indicator situation
        then map (\<lambda>a. (Some (act_id a), ''high'', ''high'',
                        map obs_id (sit_observations situation)))
               (filter (\<lambda>a. act_time_sensitivity a = Some ''flexible'')
                  (sit_candidate_actions situation))
        else [])"
    by (simp add: ConstraintAgent_assess_def Let_def constraint_loop_hard)
  fix i
  have "length (filter (\<lambda>x. asm_is_hard_constraint x \<and> asm_action_id x = Some i)
                   (ConstraintAgent_assess fresh situation))
      = length (filter (\<lambda>x. fst (asm_action_id x, asm_severity x, asm_confidence x, asm_support x)
                                 = Some i)
          (filter asm_is_hard_constraint (ConstraintAgent_assess fresh situation)))"
    by (simp add: conj_commute)
  also have "\<dots> = length (filter (\<lambda>p. fst p = Some i)
      (map (\<lambda>x. (asm_action_id x, asm_severity x, asm_confidence x, asm_support x))
         (filter asm_is_hard_constraint (ConstraintAgent_assess fresh situation))))"
    by (rule length_filter_map [of "\<lambda>p. fst p = Some i"])
  also have "\<dots> = (if has_deadline_indicator situation
             then length (filter (\<lambda>a. act_time_sensitivity a = Some ''flexible'' \<and> act_id a = i)
                            (sit_candidate_actions situation))
             else 0)"
    unfolding fields by (simp add: filter_map comp_def conj_commute)
  finally show "length (filter (\<lambda>x. asm_is_hard_constraint x \<and> asm_action_id x = Some i)
                   (ConstraintAgent_assess fresh situation))
          = (if has_deadline_indicator situation
             then length (filter (\<lambda>a. act_time_sensitivity a = Some ''flexible'' \<and> act_id a = i)
                            (sit_candidate_actions situation))
             else 0)" .
qed

theorem ConstraintAgent_hard_constraints_witness:
  "has_deadline_indicator deadline_situation
   \<and> map (\<lambda>x. (asm_action_id x, asm_severity x, asm_confidence x, asm_support x))
       (filter asm_is_hard_constraint (ConstraintAgent_assess fresh_ids deadline_situation))
     = [(Some 2, ''high'', ''high'', [30])]"
proof -
  note inst = ConstraintAgent_hard_constraints [of deadline_situation fresh_ids]
  have c: "sit_candidate_actions deadline_situation = [action_b, action_c]"
    "sit_observations deadline_situation
       = [create_observation (codepoints ''Ship it THIS wee'' @ [0x212A]) ''low'' 30]"
    by (simp_all add: deadline_situation_def create_situation_def)
  have k: "''this week'' \<in> set DEADLINE_KEYWORDS"
    by (simp add: DEADLINE_KEYWORDS_def)
  have d: "obs_content (create_observation (codepoints ''Ship it THIS wee'' @ [0x212A]) ''low'' 30)
             = codepoints ''Ship it '' @ (codepoints ''THIS wee'' @ [0x212A]) @ []"
    by (simp add: create_observation_def codepoints_def)
  have l: "list_all2 same_letter (codepoints ''THIS wee'' @ [0x212A]) (codepoints ''this week'')"
    by (simp add: codepoints_def same_letter_def)
  have "\<exists>obs \<in> set (sit_observations deadline_situation). \<exists>kw \<in> set DEADLINE_KEYWORDS.
          \<exists>ps u ss. obs_content obs = ps @ u @ ss \<and> list_all2 same_letter u (codepoints kw)"
    unfolding c(2) using k d l by (intro bexI exI conjI) simp_all
  with inst have h: "has_deadline_indicator deadline_situation"
    by blast
  from inst h show ?thesis
    by (simp add: c action_b_def action_c_def create_action_def create_observation_def)
qed

section \<open>The reality-check evaluator cannot move the selection\<close>

lemma select_action_cong:
  assumes "\<forall>a \<in> set actions. score_robustness a assessments' = score_robustness a assessments"
  shows "select_action actions assessments' = select_action actions assessments"
proof -
  have eq: "map (\<lambda>action. (action, score_robustness action assessments')) actions
      = map (\<lambda>action. (action, score_robustness action assessments)) actions"
    using assms by (intro map_cong) simp_all
  show ?thesis
    unfolding select_action_def Let_def eq by (rule refl)
qed

lemma foldl_invariant:
  assumes "Q acc" and "\<And>acc x. Q acc \<Longrightarrow> Q (step acc x)"
  shows "Q (foldl step acc xs)"
  using assms(1) by (induction xs arbitrary: acc) (simp_all add: assms(2))

lemma low_reliability_step_unbound:
  assumes "\<forall>x \<in> set acc. asm_action_id x = None \<and> \<not> asm_is_hard_constraint x"
  shows "\<forall>x \<in> set (low_reliability_step fresh s acc obs).
           asm_action_id x = None \<and> \<not> asm_is_hard_constraint x"
  using assms by (simp add: low_reliability_step_def Let_def)

lemma conflict_step_unbound:
  assumes "\<forall>x \<in> set acc. asm_action_id x = None \<and> \<not> asm_is_hard_constraint x"
  shows "\<forall>x \<in> set (conflict_step fresh s acc pair).
           asm_action_id x = None \<and> \<not> asm_is_hard_constraint x"
  using assms by (cases pair) (simp add: conflict_step_def)

lemma RealityCheckAgent_unbound:
  "\<forall>x \<in> set (RealityCheckAgent_assess fresh s).
     asm_action_id x = None \<and> \<not> asm_is_hard_constraint x"
proof -
  have a1: "\<forall>x \<in> set (foldl (low_reliability_step fresh s) [] (sit_observations s)).
              asm_action_id x = None \<and> \<not> asm_is_hard_constraint x"
  proof (rule foldl_invariant
      [where Q = "\<lambda>xs. \<forall>x \<in> set xs. asm_action_id x = None \<and> \<not> asm_is_hard_constraint x"])
    show "\<forall>x \<in> set ([] :: Assessment list).
            asm_action_id x = None \<and> \<not> asm_is_hard_constraint x"
      by simp
  next
    fix acc :: "Assessment list" and obs
    assume "\<forall>x \<in> set acc. asm_action_id x = None \<and> \<not> asm_is_hard_constraint x"
    then show "\<forall>x \<in> set (low_reliability_step fresh s acc obs).
                 asm_action_id x = None \<and> \<not> asm_is_hard_constraint x"
      by (rule low_reliability_step_unbound)
  qed
  have a2: "\<forall>x \<in> set (foldl (conflict_step fresh s)
                (foldl (low_reliability_step fresh s) [] (sit_observations s))
                (detect_conflicts (sit_observations s))).
              asm_action_id x = None \<and> \<not> asm_is_hard_constraint x"
  proof (rule foldl_invariant
      [where Q = "\<lambda>xs. \<forall>x \<in> set xs. asm_action_id x = None \<and> \<not> asm_is_hard_constraint x"])
    show "\<forall>x \<in> set (foldl (low_reliability_step fresh s) [] (sit_observations s)).
            asm_action_id x = None \<and> \<not> asm_is_hard_constraint x"
      by (rule a1)
  next
    fix acc :: "Assessment list" and pair
    assume "\<forall>x \<in> set acc. asm_action_id x = None \<and> \<not> asm_is_hard_constraint x"
    then show "\<forall>x \<in> set (conflict_step fresh s acc pair).
                 asm_action_id x = None \<and> \<not> asm_is_hard_constraint x"
      by (rule conflict_step_unbound)
  qed
  show ?thesis
    using a2 by (simp add: RealityCheckAgent_assess_def Let_def)
qed

lemma unbound_filter_by_constraints:
  assumes "\<forall>x \<in> set extra. asm_action_id x = None \<and> \<not> asm_is_hard_constraint x"
  shows "filter_by_constraints actions (assessments @ extra)
           = filter_by_constraints actions assessments"
  unfolding filter_by_constraints_eq using assms by (intro filter_cong) auto

lemma unbound_score_robustness:
  assumes "\<forall>x \<in> set extra. asm_action_id x = None \<and> \<not> asm_is_hard_constraint x"
  shows "score_robustness action (assessments @ extra) = score_robustness action assessments"
proof -
  have "filter (\<lambda>a. asm_action_id a = Some (act_id action) \<and> \<not> asm_is_hard_constraint a) extra = []"
    using assms by (simp add: filter_empty_conv)
  then show ?thesis
    by (simp add: score_robustness_def)
qed

text \<open>
  C10. Every assessment of \<^verbatim>\<open>RealityCheckAgent.assess\<close> has no \<^verbatim>\<open>action_id\<close> and is not a
  hard constraint. Appending its output to any assessment list therefore changes neither
  the result of \<^verbatim>\<open>filter_by_constraints\<close>, nor the robustness score of any action, nor the
  action \<^verbatim>\<open>select_action\<close> picks.
\<close>

theorem RealityCheckAgent_never_selects:
  "(\<forall>x \<in> set (RealityCheckAgent_assess fresh situation).
      asm_action_id x = None \<and> \<not> asm_is_hard_constraint x)
   \<and> filter_by_constraints actions (assessments @ RealityCheckAgent_assess fresh situation)
       = filter_by_constraints actions assessments
   \<and> score_robustness action (assessments @ RealityCheckAgent_assess fresh situation)
       = score_robustness action assessments
   \<and> select_action actions (assessments @ RealityCheckAgent_assess fresh situation)
       = select_action actions assessments"
  using RealityCheckAgent_unbound [of fresh situation]
  by (simp add: unbound_filter_by_constraints unbound_score_robustness select_action_cong)

lemma example_contents:
  "lower (codepoints ''Sales will grow'') = codepoints ''sales will grow''"
  "lower (codepoints ''Costs will fall'') = codepoints ''costs will fall''"
  by (simp_all add: lower_def lower_codepoint_def codepoints_def)

lemma example_directions:
  "list_ex (\<lambda>kw. sublist (codepoints kw) (lower (codepoints ''Sales will grow''))) INCREASE_KEYWORDS"
  "\<not> list_ex (\<lambda>kw. sublist (codepoints kw) (lower (codepoints ''Sales will grow''))) DECREASE_KEYWORDS"
  "\<not> list_ex (\<lambda>kw. sublist (codepoints kw) (lower (codepoints ''Costs will fall''))) INCREASE_KEYWORDS"
  "list_ex (\<lambda>kw. sublist (codepoints kw) (lower (codepoints ''Costs will fall''))) DECREASE_KEYWORDS"
  unfolding example_contents
  by (simp_all add: INCREASE_KEYWORDS_def DECREASE_KEYWORDS_def codepoints_def sublist_code)

lemma example_conflicts:
  "detect_conflicts (sit_observations low_reliability_situation)
   = [(create_observation (codepoints ''Sales will grow'') ''low'' 31,
       create_observation (codepoints ''Costs will fall'') ''high'' 32)]"
  by (simp add: detect_conflicts_def low_reliability_situation_def create_situation_def
      create_observation_def example_directions Let_def)

lemma example_reality_check:
  "length (RealityCheckAgent_assess fresh_ids low_reliability_situation) = 2"
  unfolding RealityCheckAgent_assess_def Let_def example_conflicts
  by (simp add: low_reliability_situation_def create_situation_def create_observation_def
        low_reliability_step_def conflict_step_def)

theorem RealityCheckAgent_never_selects_witness:
  "length (RealityCheckAgent_assess fresh_ids low_reliability_situation) = 2
   \<and> filter_by_constraints [action_a, action_c]
        ([create_assessment 10 (Some 1) True ''high'']
         @ RealityCheckAgent_assess fresh_ids low_reliability_situation)
       = [action_c]
   \<and> score_robustness action_c
        ([create_assessment 10 (Some 1) True ''high'']
         @ RealityCheckAgent_assess fresh_ids low_reliability_situation) = 1"
proof -
  note n = example_reality_check
  have f: "filter_by_constraints [action_a, action_c]
             [create_assessment 10 (Some 1) True ''high''] = [action_c]"
    by (simp add: filter_by_constraints_eq create_assessment_def action_a_def action_c_def
        create_action_def)
  note s = score_c_clean
  from RealityCheckAgent_never_selects [of fresh_ids low_reliability_situation
      "[action_a, action_c]" "[create_assessment 10 (Some 1) True ''high'']" action_c]
    n f s
  show ?thesis by simp
qed

section \<open>The order of the assessments\<close>

lemma select_action_total:
  "actions \<noteq> [] \<Longrightarrow> \<exists>a. select_action actions assessments = Inr a"
  using select_action_first_max [of actions assessments] by blast

lemma find_most_reversible_total:
  "actions \<noteq> [] \<Longrightarrow> \<exists>a. find_most_reversible actions = Inr a"
  using find_most_reversible_first_best [of actions] by blast

lemma synthesize_selected:
  "map_sum id dec_selected_action (synthesize new_id situation assessments)
   = (if filter_by_constraints (sit_candidate_actions situation) assessments \<noteq> []
      then select_action (filter_by_constraints (sit_candidate_actions situation) assessments)
             assessments
      else find_most_reversible (sit_candidate_actions situation))"
  by (simp add: synthesize_def Let_def split: sum.splits)

lemma synthesize_total:
  assumes "sit_candidate_actions situation \<noteq> []"
  shows "\<exists>d. synthesize new_id situation assessments = Inr d"
proof (cases "filter_by_constraints (sit_candidate_actions situation) assessments = []")
  case True
  from find_most_reversible_total [OF assms] obtain a where
    "find_most_reversible (sit_candidate_actions situation) = Inr a" by blast
  with True show ?thesis by (simp add: synthesize_def Let_def)
next
  case False
  from select_action_total [OF False] obtain a where
    "select_action (filter_by_constraints (sit_candidate_actions situation) assessments)
       assessments = Inr a" by blast
  with False show ?thesis by (simp add: synthesize_def Let_def)
qed

lemma mset_filter_by_constraints:
  assumes "mset assessments' = mset assessments"
  shows "filter_by_constraints actions assessments' = filter_by_constraints actions assessments"
proof -
  have "set assessments' = set assessments"
    using assms by (rule mset_eq_setD)
  then show ?thesis by (simp add: filter_by_constraints_eq)
qed

lemma short_permutation:
  assumes "mset xs = mset ys" and "length ys \<le> 2"
  shows "xs = ys \<or> xs = rev ys"
proof -
  have len: "length xs = length ys" using assms(1) by (rule mset_eq_length)
  consider "ys = []" | y where "ys = [y]" | y1 y2 where "ys = [y1, y2]"
    using assms(2) by (cases ys rule: list.exhaust; auto simp: length_Suc_conv le_Suc_eq
        elim: list.exhaust)
  then show ?thesis
  proof cases
    case 1
    with len show ?thesis by simp
  next
    case 2
    with assms(1) show ?thesis by simp
  next
    case 3
    with len obtain x1 x2 where xs: "xs = [x1, x2]"
      by (auto simp: length_Suc_conv)
    with assms(1) 3 show ?thesis
      by (auto simp: add_eq_conv_ex)
  qed
qed

lemma py_sum_pair:
  assumes "fl x = x" "fl y = y"
  shows "py_sum [x, y] = py_sum [y, x]"
  using assms by (simp add: py_sum_def fadd_def add.commute)

lemma severity_weight_rounded: "fl (spec_severity_weight s) = spec_severity_weight s"
  using lit_rounded [of "1 / 10"] lit_rounded [of "2 / 10"] lit_rounded [of "3 / 10"]
  by (simp add: spec_severity_weight_def)

lemma py_sum_weights_rev:
  assumes "length ws \<le> 2"
  shows "py_sum (map (\<lambda>w. spec_severity_weight (asm_severity w)) (rev ws))
         = py_sum (map (\<lambda>w. spec_severity_weight (asm_severity w)) ws)"
proof -
  consider "ws = []" | w where "ws = [w]" | w1 w2 where "ws = [w1, w2]"
    using assms by (cases ws rule: list.exhaust; auto simp: length_Suc_conv le_Suc_eq
        elim: list.exhaust)
  then show ?thesis
  proof cases
    case 3
    then show ?thesis
      using py_sum_pair [OF severity_weight_rounded severity_weight_rounded] by simp
  qed simp_all
qed

lemma score_robustness_warnings:
  assumes "mset assessments' = mset assessments"
    and "filter (\<lambda>x. \<not> asm_is_hard_constraint x \<and> asm_action_id x = Some (act_id a)) assessments'
           = filter (\<lambda>x. \<not> asm_is_hard_constraint x \<and> asm_action_id x = Some (act_id a)) assessments
         \<or> length (filter (\<lambda>x. \<not> asm_is_hard_constraint x \<and> asm_action_id x = Some (act_id a))
                      assessments) \<le> 2"
  shows "score_robustness a assessments' = score_robustness a assessments"
proof -
  define W where "W xs = filter (\<lambda>x. \<not> asm_is_hard_constraint x \<and> asm_action_id x = Some (act_id a)) xs"
    for xs :: "Assessment list"
  have m: "mset (W assessments') = mset (W assessments)"
    using assms(1) by (simp add: W_def)
  have "py_sum (map (\<lambda>w. spec_severity_weight (asm_severity w)) (W assessments'))
      = py_sum (map (\<lambda>w. spec_severity_weight (asm_severity w)) (W assessments))"
  proof (cases "W assessments' = W assessments")
    case True
    then show ?thesis by simp
  next
    case False
    with assms(2) have short: "length (W assessments) \<le> 2" by (simp add: W_def)
    from short_permutation [OF m short] False have "W assessments' = rev (W assessments)"
      by simp
    then show ?thesis by (simp add: py_sum_weights_rev [OF short])
  qed
  then show ?thesis
    by (simp add: score_robustness_formula W_def)
qed

text \<open>
  What a permutation of the assessments cannot change: the actions that survive constraint
  filtering; and the selected action, as long as for every candidate action the
  assessments that are not hard constraints and carry its id keep their relative order, or
  are at most two. (In \<^verbatim>\<open>nodes.py\<close>, \<^verbatim>\<open>ConstraintAgent\<close> emits at most one such assessment for
  a candidate, \<^verbatim>\<open>StabilityAgent\<close> exactly one and \<^verbatim>\<open>RealityCheckAgent\<close> none, so their
  output is in the second case whenever the candidate ids are distinct.)
\<close>

lemma synthesize_order_independence:
  assumes "sit_candidate_actions situation \<noteq> []"
    and "mset assessments' = mset assessments"
  shows "filter_by_constraints (sit_candidate_actions situation) assessments'
           = filter_by_constraints (sit_candidate_actions situation) assessments
         \<and> ((\<forall>a \<in> set (sit_candidate_actions situation).
                filter (\<lambda>x. \<not> asm_is_hard_constraint x \<and> asm_action_id x = Some (act_id a))
                  assessments'
                = filter (\<lambda>x. \<not> asm_is_hard_constraint x \<and> asm_action_id x = Some (act_id a))
                    assessments
                \<or> length (filter (\<lambda>x. \<not> asm_is_hard_constraint x
                                        \<and> asm_action_id x = Some (act_id a)) assessments) \<le> 2)
             \<longrightarrow> (\<exists>d d'. synthesize new_id situation assessments = Inr d
                    \<and> synthesize new_id' situation assessments' = Inr d'
                    \<and> dec_selected_action d' = dec_selected_action d))"
proof (intro conjI impI)
  show surv: "filter_by_constraints (sit_candidate_actions situation) assessments'
           = filter_by_constraints (sit_candidate_actions situation) assessments"
    using assms(2) by (rule mset_filter_by_constraints)
  assume order: "\<forall>a \<in> set (sit_candidate_actions situation).
                filter (\<lambda>x. \<not> asm_is_hard_constraint x \<and> asm_action_id x = Some (act_id a))
                  assessments'
                = filter (\<lambda>x. \<not> asm_is_hard_constraint x \<and> asm_action_id x = Some (act_id a))
                    assessments
                \<or> length (filter (\<lambda>x. \<not> asm_is_hard_constraint x
                                        \<and> asm_action_id x = Some (act_id a)) assessments) \<le> 2"
  have scores: "\<forall>a \<in> set (filter_by_constraints (sit_candidate_actions situation) assessments).
      score_robustness a assessments' = score_robustness a assessments"
    using order score_robustness_warnings [OF assms(2)]
    by (auto simp: filter_by_constraints_eq)
  have sel: "map_sum id dec_selected_action (synthesize new_id' situation assessments')
           = map_sum id dec_selected_action (synthesize new_id situation assessments)"
    unfolding synthesize_selected surv
    using select_action_cong [OF scores] by simp
  from synthesize_total [OF assms(1)] obtain d d' where
    d: "synthesize new_id situation assessments = Inr d"
    and d': "synthesize new_id' situation assessments' = Inr d'"
    by blast
  with sel show "\<exists>d d'. synthesize new_id situation assessments = Inr d
                    \<and> synthesize new_id' situation assessments' = Inr d'
                    \<and> dec_selected_action d' = dec_selected_action d"
    by simp
qed


end
